theory Spec2Isabelle
  imports Complex_Main "HOL-Library.Word"
begin

section \<open>The video mask-propagation pipeline of remove\_anything\_video.py\<close>

text \<open>
  The source is one Python class, \<open>RemoveAnythingVideo\<close>, that glues three pretrained
  models together. The models themselves, the image helpers of \<open>utils\<close> and OpenCV are
  not part of the file: they appear below as the fields of an environment record, each a
  function that may raise. Everything the file itself computes (mask selection, the
  binarisation, the box conversion, the frame loop) is translated line by line.
\<close>

subsection \<open>Exceptions and numpy scalars\<close>

datatype error =
    AssertionError
  | NotImplementedError
  | IndexError
  | ValueError
  | RuntimeError
  | IOError

text \<open>
  A numpy float is either NaN or a number. Numbers are kept exact (rationals): the means
  computed below are quotients of an integer sum below \<open>2 ^ 53\<close> by a pixel count, which
  float64 orders the same way for every image of realistic size; infinities do not occur.
\<close>

datatype npfloat = NaN | Fin rat

type_synonym uint8 = "8 word"
type_synonym int32 = "32 word"

text \<open>Two-dimensional arrays are lists of rows of equal length.\<close>

type_synonym 'p array2 = "'p list list"
type_synonym bmask = "bool array2"
type_synonym mask = "uint8 array2"
type_synonym frame = "uint8 list array2"

text \<open>Sequencing of computations that may raise: the first exception wins.\<close>

definition bind_e :: "error + 'a \<Rightarrow> ('a \<Rightarrow> error + 'b) \<Rightarrow> error + 'b" where
  "bind_e m f = (case m of Inl e \<Rightarrow> Inl e | Inr a \<Rightarrow> f a)"

text \<open>
  Indexing a Python sequence or the first axis of an array with an integer: a negative
  index counts from the end, an index out of range raises IndexError.
\<close>

definition getitem :: "'a list \<Rightarrow> int \<Rightarrow> error + 'a" where
  "getitem xs i =
     (if 0 \<le> i \<and> i < int (length xs) then Inr (xs ! nat i)
      else if i < 0 \<and> - int (length xs) \<le> i then Inr (xs ! nat (int (length xs) + i))
      else Inl IndexError)"

subsection \<open>numpy's argmin and argmax\<close>

text \<open>
  The scan numpy performs over a one-dimensional float array: \<open>mp\<close> is the best value so
  far and \<open>min_ind\<close> its position; an element replaces it when \<open>\<not> (element \<ge> mp)\<close>; the
  first NaN ends the scan and is the answer. An empty array raises ValueError.
\<close>

fun argmin_loop :: "npfloat list \<Rightarrow> nat \<Rightarrow> rat \<Rightarrow> nat \<Rightarrow> nat" where
  "argmin_loop [] i mp min_ind = min_ind"
| "argmin_loop (NaN # ip) i mp min_ind = i"
| "argmin_loop (Fin v # ip) i mp min_ind =
     (if \<not> (v \<ge> mp) then argmin_loop ip (Suc i) v i
      else argmin_loop ip (Suc i) mp min_ind)"

definition argmin :: "npfloat list \<Rightarrow> error + nat" where
  "argmin a =
     (case a of
        [] \<Rightarrow> Inl ValueError
      | NaN # ip \<Rightarrow> Inr 0
      | Fin mp # ip \<Rightarrow> Inr (argmin_loop ip 1 mp 0))"

fun argmax_loop :: "npfloat list \<Rightarrow> nat \<Rightarrow> rat \<Rightarrow> nat \<Rightarrow> nat" where
  "argmax_loop [] i mp max_ind = max_ind"
| "argmax_loop (NaN # ip) i mp max_ind = i"
| "argmax_loop (Fin v # ip) i mp max_ind =
     (if \<not> (v \<le> mp) then argmax_loop ip (Suc i) v i
      else argmax_loop ip (Suc i) mp max_ind)"

definition argmax :: "npfloat list \<Rightarrow> error + nat" where
  "argmax a =
     (case a of
        [] \<Rightarrow> Inl ValueError
      | NaN # ip \<Rightarrow> Inr 0
      | Fin mp # ip \<Rightarrow> Inr (argmax_loop ip 1 mp 0))"

subsection \<open>The squared difference against the reference mask and its mean\<close>

text \<open>
  \<open>masks.astype(np.int32) - ref_mask.astype(np.int32)\<close> broadcasts the reference over
  the candidates. For one candidate the last two axes are matched: equal extents, or one
  of them 1 (that array is then repeated along the axis); anything else raises
  ValueError.
\<close>

definition shape2 :: "'p array2 \<Rightarrow> nat \<times> nat" where
  "shape2 a = (length a, case a of [] \<Rightarrow> 0 | r # _ \<Rightarrow> length r)"

definition broadcast_dim :: "nat \<Rightarrow> nat \<Rightarrow> nat option" where
  "broadcast_dim a b =
     (if a = b then Some a else if a = 1 then Some b else if b = 1 then Some a else None)"

definition bidx :: "nat \<Rightarrow> nat \<Rightarrow> nat" where
  "bidx n i = (if n = 1 then 0 else i)"

text \<open>The conversions \<open>astype(np.int32)\<close> of the two element types that occur.\<close>

definition int32_of_bool :: "bool \<Rightarrow> int32" where
  "int32_of_bool b = (if b then 1 else 0)"

definition int32_of_uint8 :: "uint8 \<Rightarrow> int32" where
  "int32_of_uint8 p = ucast p"

text \<open>
  \<open>(a - b) ** 2\<close> elementwise in 32-bit arithmetic (which wraps), over the broadcast
  shape.
\<close>

definition sub_sq :: "('p \<Rightarrow> int32) \<Rightarrow> 'p array2 \<Rightarrow> mask \<Rightarrow> error + int32 array2" where
  "sub_sq astype_int32 m r =
     (let h1 = fst (shape2 m); w1 = snd (shape2 m);
          h2 = fst (shape2 r); w2 = snd (shape2 r)
      in bind_e (case broadcast_dim h1 h2 of None \<Rightarrow> Inl ValueError | Some h \<Rightarrow> Inr h) (\<lambda>h.
         bind_e (case broadcast_dim w1 w2 of None \<Rightarrow> Inl ValueError | Some w \<Rightarrow> Inr w) (\<lambda>w.
           Inr (map (\<lambda>i. map (\<lambda>j.
                  (let d = astype_int32 (m ! bidx h1 i ! bidx w1 j)
                           - int32_of_uint8 (r ! bidx h2 i ! bidx w2 j)
                   in d * d)) [0..<w]) [0..<h]))))"

text \<open>
  \<open>np.mean(..., axis=(-2, -1))\<close> of one candidate's plane of int32 values: the sum of the
  signed values over the number of elements, NaN for a plane without elements.
\<close>

definition np_mean :: "int32 array2 \<Rightarrow> npfloat" where
  "np_mean a =
     (let vs = concat a
      in if vs = [] then NaN
         else Fin (of_int (sum_list (map sint vs)) / of_nat (length vs)))"

definition mse :: "('p \<Rightarrow> int32) \<Rightarrow> 'p array2 \<Rightarrow> mask \<Rightarrow> error + npfloat" where
  "mse astype_int32 m r = bind_e (sub_sq astype_int32 m r) (\<lambda>d. Inr (np_mean d))"

fun mse_all :: "('p \<Rightarrow> int32) \<Rightarrow> 'p array2 list \<Rightarrow> mask \<Rightarrow> error + npfloat list" where
  "mse_all astype_int32 [] r = Inr []"
| "mse_all astype_int32 (m # ms) r =
     bind_e (mse astype_int32 m r) (\<lambda>v.
     bind_e (mse_all astype_int32 ms r) (\<lambda>vs. Inr (v # vs)))"

subsection \<open>mask\_selection\<close>

text \<open>
  The candidates are the planes of \<open>masks\<close>, in order. numpy chooses \<open>astype\<close> by the
  element type of the array; the model is given the conversion for the candidates'
  element type. The reference, when there is one, is always a uint8 mask in this program.
\<close>

definition mask_selection ::
  "('p \<Rightarrow> int32) \<Rightarrow> 'p array2 list \<Rightarrow> npfloat list \<Rightarrow> mask option \<Rightarrow> bool
     \<Rightarrow> error + 'p array2" where
  "mask_selection astype_int32 masks scores ref_mask interactive =
     (if interactive then Inl NotImplementedError
      else
        bind_e (case ref_mask of
                  Some r \<Rightarrow> bind_e (mse_all astype_int32 masks r) argmin
                | None \<Rightarrow> argmax scores)
          (\<lambda>idx. getitem masks (int idx)))"


subsection \<open>Arguments with defaults\<close>

text \<open>
  \<open>forward\<close> declares \<open>key_frame_mask_idx: int = None\<close> and
  \<open>dilate_kernel_size: int = 15\<close>. A caller may leave such an argument out, or pass a
  value, and the value may be \<open>None\<close>.
\<close>

datatype 'a arg = Omitted | Given 'a

definition arg_or :: "'a \<Rightarrow> 'a arg \<Rightarrow> 'a" where
  "arg_or d a = (case a of Omitted \<Rightarrow> d | Given v \<Rightarrow> v)"

subsection \<open>The collaborators and the state they act on\<close>

text \<open>
  A box is four integers, read as \<open>(x, y, w, h)\<close> by the tracker and as
  \<open>(x1, y1, x2, y2)\<close> by the segmentor. The rows of the tracker's array are numpy
  integers of 64 bits, read as signed (\<open>sint\<close>); their sum wraps around at \<open>2 ^ 63\<close>.
\<close>

type_synonym int64 = "64 word"
type_synonym box = "int64 \<times> int64 \<times> int64 \<times> int64"

text \<open>
  The keyword arguments \<open>forward_segmentor\<close> hands to \<open>SamPredictor.predict\<close>. Its
  remaining ones (\<open>mask_input\<close>, \<open>multimask_output\<close>, \<open>return_logits\<close>) keep their
  defaults in every call of the file.
\<close>

record sam_prompt =
  point_coords :: "int list list option"
  point_labels :: "int list option"
  box :: "box option"

text \<open>
  What is not in the file: the image reader and writer and the dilation of \<open>utils\<close>,
  the predictor of \<open>segment_anything\<close>, OpenCV's bounding rectangle, the tracker. Each is
  a function of its arguments that returns a value or raises. \<open>predict\<close> is given the
  image the predictor holds; of its three results the logits are dropped at once by
  \<open>forward_segmentor\<close> and are left out.
\<close>

record env =
  load_img_to_array :: "string \<Rightarrow> error + frame"
  set_image :: "frame \<Rightarrow> error + unit"
  predict :: "frame \<Rightarrow> sam_prompt \<Rightarrow> error + (bmask list \<times> npfloat list)"
  dilate_mask :: "mask \<Rightarrow> int \<Rightarrow> error + mask"
  save_array_to_img :: "mask \<Rightarrow> string \<Rightarrow> error + unit"
  boundingRect :: "mask \<Rightarrow> error + box"
  get_box_using_ostrack :: "string list \<Rightarrow> box \<Rightarrow> error + box list"

text \<open>Every call that leaves the file is recorded, in order.\<close>

datatype event =
    Load string
  | SetImage frame
  | Predict sam_prompt
  | ResetImage
  | Dilate mask int
  | Save mask string
  | BoundingRect mask
  | Track "string list" box

text \<open>
  The state a run acts on: the image the predictor holds (none, or one), the image files
  written, and the record of calls.
\<close>

record state =
  sam_image :: "frame option"
  files :: "string \<Rightarrow> mask option"
  trace :: "event list"

type_synonym 'a run = "state \<Rightarrow> (error + 'a) \<times> state"

definition ret :: "'a \<Rightarrow> 'a run" where
  "ret a = (\<lambda>s. (Inr a, s))"

definition lift :: "error + 'a \<Rightarrow> 'a run" where
  "lift m = (\<lambda>s. (m, s))"

definition bind_r :: "'a run \<Rightarrow> ('a \<Rightarrow> 'b run) \<Rightarrow> 'b run" where
  "bind_r m f = (\<lambda>s. case m s of (Inl e, s') \<Rightarrow> (Inl e, s') | (Inr a, s') \<Rightarrow> f a s')"

definition call :: "event \<Rightarrow> error + 'a \<Rightarrow> 'a run" where
  "call ev res = (\<lambda>s. (res, s\<lparr>trace := trace s @ [ev]\<rparr>))"

definition py_assert :: "bool \<Rightarrow> unit run" where
  "py_assert b = (if b then ret () else lift (Inl AssertionError))"

text \<open>
  The predictor. \<open>set_image\<close> replaces whatever image was held; when it raises, the model
  leaves the held image as it was. \<open>predict\<close> without an image raises. \<open>reset_image\<close>
  lets go of the image.
\<close>

definition sam_set_image :: "env \<Rightarrow> frame \<Rightarrow> unit run" where
  "sam_set_image E img =
     (\<lambda>s. case set_image E img of
            Inl e \<Rightarrow> (Inl e, s\<lparr>trace := trace s @ [SetImage img]\<rparr>)
          | Inr u \<Rightarrow> (Inr (), s\<lparr>sam_image := Some img, trace := trace s @ [SetImage img]\<rparr>))"

definition sam_predict :: "env \<Rightarrow> sam_prompt \<Rightarrow> (bmask list \<times> npfloat list) run" where
  "sam_predict E pr =
     (\<lambda>s. case sam_image s of
            None \<Rightarrow> call (Predict pr) (Inl RuntimeError) s
          | Some img \<Rightarrow> call (Predict pr) (predict E img pr) s)"

definition sam_reset_image :: "unit run" where
  "sam_reset_image = (\<lambda>s. (Inr (), s\<lparr>sam_image := None, trace := trace s @ [ResetImage]\<rparr>))"

text \<open>The helpers: a successful save leaves the array in the file of that name.\<close>

definition load :: "env \<Rightarrow> string \<Rightarrow> frame run" where
  "load E p = call (Load p) (load_img_to_array E p)"

definition dilate :: "env \<Rightarrow> mask \<Rightarrow> int \<Rightarrow> mask run" where
  "dilate E m k = call (Dilate m k) (dilate_mask E m k)"

definition save :: "env \<Rightarrow> mask \<Rightarrow> string \<Rightarrow> unit run" where
  "save E m p =
     (\<lambda>s. case save_array_to_img E m p of
            Inl e \<Rightarrow> (Inl e, s\<lparr>trace := trace s @ [Save m p]\<rparr>)
          | Inr u \<Rightarrow> (Inr (), s\<lparr>files := (files s)(p \<mapsto> m), trace := trace s @ [Save m p]\<rparr>))"

subsection \<open>The methods of RemoveAnythingVideo\<close>

text \<open>
  \<open>forward_tracker\<close>: the initial box goes to the tracker as a \<open>1 \<times> 4\<close> float32 array,
  which holds pixel coordinates exactly.
\<close>

definition forward_tracker :: "env \<Rightarrow> string list \<Rightarrow> box \<Rightarrow> box list run" where
  "forward_tracker E frames_ps init_box =
     call (Track frames_ps init_box) (get_box_using_ostrack E frames_ps init_box)"

text \<open>\<open>forward_segmentor\<close>: three calls in a row, with nothing around them.\<close>

definition forward_segmentor ::
  "env \<Rightarrow> frame \<Rightarrow> int list list option \<Rightarrow> int list option \<Rightarrow> box option
     \<Rightarrow> (bmask list \<times> npfloat list) run" where
  "forward_segmentor E img coords labels bx =
     bind_r (sam_set_image E img) (\<lambda>u.
     bind_r (sam_predict E \<lparr>point_coords = coords, point_labels = labels, box = bx\<rparr>) (\<lambda>res.
     bind_r sam_reset_image (\<lambda>u.
     ret (fst res, snd res))))"

definition get_box_from_mask :: "env \<Rightarrow> mask \<Rightarrow> box run" where
  "get_box_from_mask E m = call (BoundingRect m) (boundingRect E m)"

text \<open>
  \<open>(mask * 255).astype(np.uint8)\<close> on a boolean array: the product is an integer array
  of 0 and 255, then cut to eight bits.
\<close>

definition binarize :: "bmask \<Rightarrow> mask" where
  "binarize m = map (map (\<lambda>b. word_of_int ((if b then 1 else 0) * 255))) m"

text \<open>The two lines under the comment \<open>XYWH -> XYXY\<close>.\<close>

definition xywh_to_xyxy :: "box \<Rightarrow> box" where
  "xywh_to_xyxy b = (case b of (x, y, w, h) \<Rightarrow> (x, y, x + w, y + h))"

text \<open>
  The loop over \<open>zip(frame_ps[1:], all_box[1:])\<close>, with the three variables it updates:
  \<open>ref_mask\<close>, \<open>all_frame\<close> and \<open>all_mask\<close>.
\<close>

fun propagate ::
  "env \<Rightarrow> int option \<Rightarrow> (string \<times> box) list \<Rightarrow> mask \<Rightarrow> frame list \<Rightarrow> mask list
     \<Rightarrow> (frame list \<times> mask list) run" where
  "propagate E dilate_kernel_size [] ref_mask all_frame all_mask = ret (all_frame, all_mask)"
| "propagate E dilate_kernel_size ((frame_p, bx) # rest) ref_mask all_frame all_mask =
     bind_r (load E frame_p) (\<lambda>frame.
     bind_r (forward_segmentor E frame None None (Some (xywh_to_xyxy bx))) (\<lambda>res.
     bind_r (lift (mask_selection int32_of_uint8 (map binarize (fst res)) (snd res)
                     (Some ref_mask) False)) (\<lambda>mask.
     bind_r (case dilate_kernel_size of None \<Rightarrow> ret mask | Some k \<Rightarrow> dilate E mask k) (\<lambda>mask.
     propagate E dilate_kernel_size rest mask (all_frame @ [frame]) (all_mask @ [mask])))))"

definition forward ::
  "env \<Rightarrow> string list \<Rightarrow> int \<Rightarrow> int list list \<Rightarrow> int list \<Rightarrow> int option arg \<Rightarrow> int option arg
     \<Rightarrow> (frame list \<times> mask list \<times> box list) run" where
  "forward E frame_ps key_frame_idx key_frame_point_coords key_frame_point_labels
       key_frame_mask_idx_arg dilate_kernel_size_arg =
     (let key_frame_mask_idx = arg_or None key_frame_mask_idx_arg;
          dilate_kernel_size = arg_or (Some 15) dilate_kernel_size_arg
      in
      bind_r (py_assert (key_frame_idx = 0)) (\<lambda>u.
      bind_r (lift (getitem frame_ps key_frame_idx)) (\<lambda>key_frame_p.
      bind_r (load E key_frame_p) (\<lambda>key_frame.
      bind_r (forward_segmentor E key_frame
                (Some key_frame_point_coords) (Some key_frame_point_labels) None) (\<lambda>res.
      bind_r (lift (case key_frame_mask_idx of
                      Some i \<Rightarrow> getitem (fst res) i
                    | None \<Rightarrow> mask_selection int32_of_bool (fst res) (snd res) None False))
        (\<lambda>key_mask.
      bind_r (case dilate_kernel_size of
                None \<Rightarrow> ret (binarize key_mask)
              | Some k \<Rightarrow> dilate E (binarize key_mask) k) (\<lambda>key_mask.
      bind_r (save E key_mask ''mask.png'') (\<lambda>u.
      bind_r (get_box_from_mask E key_mask) (\<lambda>key_box.
      bind_r (forward_tracker E frame_ps key_box) (\<lambda>all_box.
      bind_r (propagate E dilate_kernel_size (zip (drop 1 frame_ps) (drop 1 all_box))
                key_mask [key_frame] [key_mask]) (\<lambda>acc.
      ret (fst acc, snd acc, all_box))))))))))))"


subsection \<open>Notions used to state the properties\<close>

text \<open>An array of \<open>h\<close> rows of \<open>w\<close> elements each.\<close>

definition has_shape :: "nat \<Rightarrow> nat \<Rightarrow> 'p array2 \<Rightarrow> bool" where
  "has_shape h w a = (length a = h \<and> list_all (\<lambda>row. length row = w) a)"

text \<open>
  The mean squared pixel-wise difference of two masks as the description of the selection
  policy has it: the pixels as integers, their differences squared, summed over the
  mask and divided by the number of pixels.
\<close>

definition sq_err :: "uint8 \<Rightarrow> uint8 \<Rightarrow> int" where
  "sq_err a b = (uint a - uint b)\<^sup>2"

definition mean_sq_diff :: "mask \<Rightarrow> mask \<Rightarrow> rat" where
  "mean_sq_diff m r =
     of_int (sum_list (map2 (\<lambda>rm rr. sum_list (map2 sq_err rm rr)) m r))
       / of_nat (length (concat m))"

definition binary_mask :: "mask \<Rightarrow> bool" where
  "binary_mask m = list_all (list_all (\<lambda>p. p = 0 \<or> p = 255)) m"

text \<open>
  The value the two lines \<open>if dilate_kernel_size is not None: mask = dilate_mask(...)\<close>
  leave in the variable.
\<close>

definition dilate_opt :: "env \<Rightarrow> int option \<Rightarrow> mask \<Rightarrow> error + mask" where
  "dilate_opt E dilate_kernel_size m =
     (case dilate_kernel_size of None \<Rightarrow> Inr m | Some k \<Rightarrow> dilate_mask E m k)"

text \<open>
  The candidate chosen on the key frame, binarised, before any dilation: the one at the
  manual index when there is one, the one \<open>mask_selection\<close> picks without a reference
  otherwise.
\<close>

definition key_select ::
  "env \<Rightarrow> frame \<Rightarrow> int list list \<Rightarrow> int list \<Rightarrow> int option \<Rightarrow> error + mask" where
  "key_select E key_frame coords labels key_frame_mask_idx =
     bind_e (predict E key_frame
               \<lparr>point_coords = Some coords, point_labels = Some labels, box = None\<rparr>) (\<lambda>res.
     bind_e (case key_frame_mask_idx of
               Some i \<Rightarrow> getitem (fst res) i
             | None \<Rightarrow> mask_selection int32_of_bool (fst res) (snd res) None False) (\<lambda>m.
     Inr (binarize m)))"

text \<open>
  The candidate chosen on a later frame, before any dilation: the segmentor is prompted
  with the frame's box alone, its candidates are binarised, and \<open>mask_selection\<close> picks
  among them against the reference.
\<close>

definition frame_select :: "env \<Rightarrow> frame \<Rightarrow> box \<Rightarrow> mask \<Rightarrow> error + mask" where
  "frame_select E frame bx ref_mask =
     bind_e (predict E frame
               \<lparr>point_coords = None, point_labels = None, box = Some (xywh_to_xyxy bx)\<rparr>) (\<lambda>res.
     mask_selection int32_of_uint8 (map binarize (fst res)) (snd res) (Some ref_mask) False)"

text \<open>
  The contract of dilation the pipeline relies on: a mask of 0 and 255 stays one.
\<close>

definition dilate_keeps_binary :: "env \<Rightarrow> bool" where
  "dilate_keeps_binary E =
     (\<forall>m k m'. binary_mask m \<longrightarrow> dilate_mask E m k = Inr m' \<longrightarrow> binary_mask m')"

text \<open>
  A computation that writes no image file and only adds to the record of calls.
\<close>

definition keeps :: "'a run \<Rightarrow> bool" where
  "keeps m = (\<forall>s. files (snd (m s)) = files s \<and> (\<exists>t. trace (snd (m s)) = trace s @ t))"

subsection \<open>A small environment to run the model in\<close>

text \<open>
  The positions of an axis of \<open>n\<close> pixels that lie under an element of side \<open>k\<close> centred
  on position \<open>c\<close>, and a pixel of a mask, 0 outside of it.
\<close>

definition window :: "nat \<Rightarrow> int \<Rightarrow> nat \<Rightarrow> nat list" where
  "window n k c = filter (\<lambda>i. int c - k div 2 \<le> int i \<and> int i < int c - k div 2 + k) [0..<n]"

definition pix :: "mask \<Rightarrow> nat \<Rightarrow> nat \<Rightarrow> uint8" where
  "pix m i j = (if i < length m \<and> j < length (m ! i) then m ! i ! j else 0)"

text \<open>
  Modelled from the spec: \<open>dilate_mask\<close> of the module \<open>utils\<close> is not in the file. It is
  the "morphological expansion of a mask's foreground region by a structuring element of
  given kernel size": with the square all-ones element of side \<open>k\<close>, anchored at its centre
  \<open>k div 2\<close>, a pixel becomes the maximum of the pixels under the element, and pixels
  outside the image do not count. The spec gives the helper no meaning at a size below 1;
  there the stand-in does what the libraries under the helper do: numpy cannot build an
  element of negative side and raises, and OpenCV replaces an empty element (side 0) by its
  3 x 3 default. The stand-in serves the concrete runs only; the theorems about \<open>forward\<close>
  hold for every \<open>dilate_mask\<close>.
\<close>

definition dilate_square :: "mask \<Rightarrow> int \<Rightarrow> error + mask" where
  "dilate_square m k =
     (if k < 0 then Inl ValueError
      else
        let ks = (if k = 0 then 3 else k); h = length m; w = snd (shape2 m)
        in Inr (map (\<lambda>y. map (\<lambda>x.
                  fold max (concat (map (\<lambda>i. map (\<lambda>j. pix m i j) (window w ks x))
                                      (window h ks y))) 0) [0..<w]) [0..<h]))"

text \<open>Three frames of 2 x 2 pixels, the candidates the segmentor returns, three boxes.\<close>

definition frame0 :: frame where
  "frame0 = [[[10, 10, 10], [20, 20, 20]], [[30, 30, 30], [40, 40, 40]]]"

definition frame1 :: frame where
  "frame1 = [[[11, 11, 11], [21, 21, 21]], [[31, 31, 31], [41, 41, 41]]]"

definition frame2 :: frame where
  "frame2 = [[[12, 12, 12], [22, 22, 22]], [[32, 32, 32], [42, 42, 42]]]"

definition demo_paths :: "string list" where
  "demo_paths = [''f0.jpg'', ''f1.jpg'', ''f2.jpg'']"

definition demo_load :: "string \<Rightarrow> error + frame" where
  "demo_load p =
     (if p = ''f0.jpg'' then Inr frame0
      else if p = ''f1.jpg'' then Inr frame1
      else if p = ''f2.jpg'' then Inr frame2
      else Inl IOError)"

definition key_cands :: "bmask list" where
  "key_cands = [[[True, False], [False, False]],
                [[True, False], [False, True]],
                [[True, True], [True, True]]]"

definition later_cands :: "bmask list" where
  "later_cands = [[[False, True], [True, True]],
                  [[True, False], [False, False]],
                  [[False, False], [False, True]]]"

definition key_scores :: "rat list" where
  "key_scores = [9 / 10, 19 / 20, 19 / 20]"

definition demo_predict :: "frame \<Rightarrow> sam_prompt \<Rightarrow> error + (bmask list \<times> npfloat list)" where
  "demo_predict img pr =
     (if img = frame0 then Inr (key_cands, map Fin key_scores)
      else Inr (later_cands, [Fin (1 / 2), Fin (3 / 5), Fin (7 / 10)]))"

text \<open>The later candidates as uint8 masks, and the key-frame mask they are compared with.\<close>

definition later_masks :: "mask list" where
  "later_masks = [[[0, 255], [255, 255]], [[255, 0], [0, 0]], [[0, 0], [0, 255]]]"

definition key_mask1 :: mask where
  "key_mask1 = [[255, 0], [0, 255]]"

definition demo_tracker :: "string list \<Rightarrow> box \<Rightarrow> error + box list" where
  "demo_tracker ps b = Inr (take (length ps) [b, (0, 1, 2, 1), (1, 0, 1, 2)])"

definition demo_env :: env where
  "demo_env =
     \<lparr>load_img_to_array = demo_load,
      set_image = (\<lambda>img. Inr ()),
      predict = demo_predict,
      dilate_mask = dilate_square,
      save_array_to_img = (\<lambda>m p. Inr ()),
      boundingRect = (\<lambda>m. Inr (0, 0, of_nat (snd (shape2 m)), of_nat (length m))),
      get_box_using_ostrack = demo_tracker\<rparr>"

text \<open>The same environment with a predictor whose \<open>predict\<close> raises.\<close>

definition failing_env :: env where
  "failing_env = demo_env\<lparr>predict := (\<lambda>img pr. Inl RuntimeError)\<rparr>"

definition state0 :: state where
  "state0 = \<lparr>sam_image = None, files = (\<lambda>p. None), trace = []\<rparr>"


text \<open>
  The run on the three frames with the point prompt \<open>[[1, 1]]\<close>, label \<open>[1]\<close> and the
  manual key-frame index 1, as a function of the kernel-size argument, and what it
  returns: the frames, the boxes, the masks without dilation, and the masks a 3 x 3 (or
  larger) element leaves of them.
\<close>

definition demo_run :: "int option arg \<Rightarrow> (error + frame list \<times> mask list \<times> box list) \<times> state" where
  "demo_run dks = forward demo_env demo_paths 0 [[1, 1]] [1] (Given (Some 1)) dks state0"

definition demo_frames :: "frame list" where
  "demo_frames = [frame0, frame1, frame2]"

definition demo_boxes :: "box list" where
  "demo_boxes = [(0, 0, 2, 2), (0, 1, 2, 1), (1, 0, 1, 2)]"

definition plain_masks :: "mask list" where
  "plain_masks = [[[255, 0], [0, 255]], [[255, 0], [0, 0]], [[255, 0], [0, 0]]]"

definition grown_masks :: "mask list" where
  "grown_masks = [[[255, 255], [255, 255]], [[255, 255], [255, 255]], [[255, 255], [255, 255]]]"

section \<open>Properties of mask selection\<close>

subsection \<open>The scans return the first extremal position\<close>

lemma argmin_loop_first:
  "mi < length pre \<Longrightarrow> pre ! mi = mp \<Longrightarrow> \<forall>j<length pre. mp \<le> pre ! j \<Longrightarrow> \<forall>j<mi. mp < pre ! j \<Longrightarrow>
   argmin_loop (map Fin vs) (length pre) mp mi = r \<Longrightarrow>
   r < length (pre @ vs) \<and> (\<forall>j<length (pre @ vs). (pre @ vs) ! r \<le> (pre @ vs) ! j)
     \<and> (\<forall>j<r. (pre @ vs) ! r < (pre @ vs) ! j)"
proof (induction vs arbitrary: pre mp mi)
  case Nil
  then show ?case by auto
next
  case (Cons v vs)
  show ?case
  proof (cases "v < mp")
    case True
    have "argmin_loop (map Fin vs) (length (pre @ [v])) v (length pre) = r"
      using Cons.prems(5) True by simp
    moreover have "length pre < length (pre @ [v])" by simp
    moreover have "(pre @ [v]) ! length pre = v" by simp
    moreover have "\<forall>j<length (pre @ [v]). v \<le> (pre @ [v]) ! j"
      using Cons.prems(3) True by (auto simp: nth_append less_Suc_eq intro: less_imp_le order.trans)
    moreover have "\<forall>j<length pre. v < (pre @ [v]) ! j"
      using Cons.prems(3) True by (auto simp: nth_append)
    ultimately show ?thesis
      using Cons.IH [of "length pre" "pre @ [v]" v] by simp
  next
    case False
    have "argmin_loop (map Fin vs) (length (pre @ [v])) mp mi = r"
      using Cons.prems(5) False by simp
    moreover have "mi < length (pre @ [v])" using Cons.prems(1) by simp
    moreover have "(pre @ [v]) ! mi = mp" using Cons.prems(1,2) by (simp add: nth_append)
    moreover have "\<forall>j<length (pre @ [v]). mp \<le> (pre @ [v]) ! j"
      using Cons.prems(3) False by (auto simp: nth_append less_Suc_eq)
    moreover have "\<forall>j<mi. mp < (pre @ [v]) ! j"
      using Cons.prems(1,4) by (auto simp: nth_append)
    ultimately show ?thesis
      using Cons.IH [of mi "pre @ [v]" mp] by simp
  qed
qed

lemma argmin_first:
  assumes "vs \<noteq> []"
  shows "\<exists>i<length vs. argmin (map Fin vs) = Inr i \<and> (\<forall>j<length vs. vs ! i \<le> vs ! j) \<and> (\<forall>j<i. vs ! i < vs ! j)"
proof -
  obtain v rest where vs: "vs = v # rest" using assms by (cases vs) auto
  define r where "r = argmin_loop (map Fin rest) (length [v]) v 0"
  have "r < length ([v] @ rest) \<and> (\<forall>j<length ([v] @ rest). ([v] @ rest) ! r \<le> ([v] @ rest) ! j)
     \<and> (\<forall>j<r. ([v] @ rest) ! r < ([v] @ rest) ! j)"
    by (rule argmin_loop_first [where mi = 0 and mp = v]) (auto simp: r_def)
  moreover have "argmin (map Fin vs) = Inr r"
    by (simp add: argmin_def vs r_def)
  ultimately show ?thesis using vs by auto
qed

lemma argmax_loop_first:
  "mi < length pre \<Longrightarrow> pre ! mi = mp \<Longrightarrow> \<forall>j<length pre. pre ! j \<le> mp \<Longrightarrow> \<forall>j<mi. pre ! j < mp \<Longrightarrow>
   argmax_loop (map Fin vs) (length pre) mp mi = r \<Longrightarrow>
   r < length (pre @ vs) \<and> (\<forall>j<length (pre @ vs). (pre @ vs) ! j \<le> (pre @ vs) ! r)
     \<and> (\<forall>j<r. (pre @ vs) ! j < (pre @ vs) ! r)"
proof (induction vs arbitrary: pre mp mi)
  case Nil
  then show ?case by auto
next
  case (Cons v vs)
  show ?case
  proof (cases "mp < v")
    case True
    have "argmax_loop (map Fin vs) (length (pre @ [v])) v (length pre) = r"
      using Cons.prems(5) True by simp
    moreover have "length pre < length (pre @ [v])" by simp
    moreover have "(pre @ [v]) ! length pre = v" by simp
    moreover have "\<forall>j<length (pre @ [v]). (pre @ [v]) ! j \<le> v"
      using Cons.prems(3) True by (auto simp: nth_append less_Suc_eq intro: less_imp_le order.trans)
    moreover have "\<forall>j<length pre. (pre @ [v]) ! j < v"
      using Cons.prems(3) True by (auto simp: nth_append)
    ultimately show ?thesis
      using Cons.IH [of "length pre" "pre @ [v]" v] by simp
  next
    case False
    have "argmax_loop (map Fin vs) (length (pre @ [v])) mp mi = r"
      using Cons.prems(5) False by simp
    moreover have "mi < length (pre @ [v])" using Cons.prems(1) by simp
    moreover have "(pre @ [v]) ! mi = mp" using Cons.prems(1,2) by (simp add: nth_append)
    moreover have "\<forall>j<length (pre @ [v]). (pre @ [v]) ! j \<le> mp"
      using Cons.prems(3) False by (auto simp: nth_append less_Suc_eq)
    moreover have "\<forall>j<mi. (pre @ [v]) ! j < mp"
      using Cons.prems(1,4) by (auto simp: nth_append)
    ultimately show ?thesis
      using Cons.IH [of mi "pre @ [v]" mp] by simp
  qed
qed

lemma argmax_first:
  assumes "vs \<noteq> []"
  shows "\<exists>i<length vs. argmax (map Fin vs) = Inr i \<and> (\<forall>j<length vs. vs ! j \<le> vs ! i) \<and> (\<forall>j<i. vs ! j < vs ! i)"
proof -
  obtain v rest where vs: "vs = v # rest" using assms by (cases vs) auto
  define r where "r = argmax_loop (map Fin rest) (length [v]) v 0"
  have "r < length ([v] @ rest) \<and> (\<forall>j<length ([v] @ rest). ([v] @ rest) ! j \<le> ([v] @ rest) ! r)
     \<and> (\<forall>j<r. ([v] @ rest) ! j < ([v] @ rest) ! r)"
    by (rule argmax_loop_first [where mi = 0 and mp = v]) (auto simp: r_def)
  moreover have "argmax (map Fin vs) = Inr r"
    by (simp add: argmax_def vs r_def)
  ultimately show ?thesis using vs by auto
qed

lemma getitem_nat: "i < length xs \<Longrightarrow> getitem xs (int i) = Inr (xs ! i)"
  by (simp add: getitem_def)

subsection \<open>The 32-bit arithmetic of the squared difference does not wrap\<close>

lemma stb31: "- 2147483648 \<le> k \<Longrightarrow> k < 2147483648 \<Longrightarrow> signed_take_bit 31 (k::int) = k"
  by (rule signed_take_bit_int_eq_self) simp_all

lemma uint8_range: "0 \<le> uint (a :: uint8) \<and> uint a < 256"
  using uint_lt2p [of a] by simp

lemma sint_int32_of_uint8: "sint (int32_of_uint8 a) = uint a"
proof -
  have b: "0 \<le> uint a" "uint a < 256" using uint8_range [of a] by simp_all
  have "take_bit 32 (uint a) = uint a"
    by (rule take_bit_int_eq_self) (use b in simp_all)
  then have "uint (ucast a :: int32) = uint a"
    by (simp add: unsigned_ucast_eq)
  moreover have "signed_take_bit 31 (uint a) = uint a"
    by (rule stb31) (use b in linarith)+
  ultimately show ?thesis
    unfolding int32_of_uint8_def by (simp add: sint_uint)
qed

lemma sint_sub: "sint (int32_of_uint8 a - int32_of_uint8 b) = uint a - uint b"
proof -
  have "0 \<le> uint a" "uint a < 256" "0 \<le> uint b" "uint b < 256"
    using uint8_range [of a] uint8_range [of b] by simp_all
  then have "signed_take_bit 31 (uint a - uint b) = uint a - uint b"
    by (intro stb31) linarith+
  then show ?thesis
    by (simp add: sint_word_diff sint_int32_of_uint8)
qed

lemma sint_sq: "sint (let d = int32_of_uint8 a - int32_of_uint8 b in d * d) = (uint a - uint b)\<^sup>2"
proof -
  have r: "0 \<le> uint a" "uint a < 256" "0 \<le> uint b" "uint b < 256"
    using uint8_range [of a] uint8_range [of b] by simp_all
  then have "\<bar>uint a - uint b\<bar> \<le> 255" by linarith
  then have "\<bar>uint a - uint b\<bar> * \<bar>uint a - uint b\<bar> \<le> 255 * 255"
    by (intro mult_mono) simp_all
  then have le: "(uint a - uint b) * (uint a - uint b) \<le> 65025"
    by simp
  have ge: "0 \<le> (uint a - uint b) * (uint a - uint b)" by simp
  have "signed_take_bit 31 ((uint a - uint b) * (uint a - uint b)) = (uint a - uint b) * (uint a - uint b)"
    by (rule stb31) (use le ge in linarith)+
  then show ?thesis
    by (simp add: Let_def sint_word_mult sint_sub power2_eq_square)
qed

subsection \<open>The computed mean is the mean squared pixel-wise difference\<close>

lemma map2_nth:
  "length xs = n \<Longrightarrow> length ys = n \<Longrightarrow> map2 f xs ys = map (\<lambda>i. f (xs ! i) (ys ! i)) [0..<n]"
  by (rule nth_equalityI) auto

lemma has_shape_row: "has_shape h w a \<Longrightarrow> i < h \<Longrightarrow> length (a ! i) = w"
  by (auto simp: has_shape_def list_all_length)

lemma has_shape_shape2: "has_shape h w a \<Longrightarrow> 0 < h \<Longrightarrow> shape2 a = (h, w)"
  by (cases a) (auto simp: has_shape_def shape2_def)

lemma has_shape_count: "has_shape h w a \<Longrightarrow> length (concat a) = h * w"
proof -
  assume a: "has_shape h w a"
  then have "map length a = replicate h w"
    by (intro nth_equalityI) (auto simp: has_shape_def list_all_length)
  then show ?thesis by (simp add: length_concat sum_list_replicate)
qed

lemma sum_list_concat_rows: "sum_list (concat xss) = sum_list (map sum_list xss)" for xss :: "int list list"
  by (induction xss) simp_all

lemma bidx_id: "i < n \<Longrightarrow> bidx n i = i"
  by (auto simp: bidx_def)

lemma sub_sq_same_shape:
  assumes m: "has_shape h w m" and r: "has_shape h w r" and h: "0 < h"
  shows "sub_sq int32_of_uint8 m r =
           Inr (map (\<lambda>i. map (\<lambda>j. (let d = int32_of_uint8 (m ! i ! j) - int32_of_uint8 (r ! i ! j)
                                    in d * d)) [0..<w]) [0..<h])"
  using has_shape_shape2 [OF m h] has_shape_shape2 [OF r h]
  by (simp add: sub_sq_def broadcast_dim_def bind_e_def bidx_id cong: map_cong)

lemma np_mean_nonempty:
  "concat a \<noteq> [] \<Longrightarrow>
   np_mean a = Fin (of_int (sum_list (map sint (concat a))) / of_nat (length (concat a)))"
  unfolding np_mean_def Let_def by (simp only: if_False)

lemma mse_same_shape:
  assumes m: "has_shape h w m" and r: "has_shape h w r" and h: "0 < h" and w: "0 < w"
  shows "mse int32_of_uint8 m r = Inr (Fin (mean_sq_diff m r))"
proof -
  define D where "D = map (\<lambda>i. map (\<lambda>j. (let d = int32_of_uint8 (m ! i ! j) - int32_of_uint8 (r ! i ! j)
                                    in d * d)) [0..<w]) [0..<h]"
  have len: "length (concat D) = h * w"
    by (simp add: D_def length_concat comp_def sum_list_triv)
  have ne: "concat D \<noteq> []"
  proof
    assume "concat D = []"
    then have "length (concat D) = 0" by (simp only: list.size)
    with len h w show False by simp
  qed
  have "sum_list (map sint (concat D))
          = sum_list (map (\<lambda>i. sum_list (map (\<lambda>j. sq_err (m ! i ! j) (r ! i ! j)) [0..<w])) [0..<h])"
    by (simp add: D_def map_concat sum_list_concat_rows comp_def sint_sq sq_err_def)
  also have "\<dots> = sum_list (map (\<lambda>i. sum_list (map2 sq_err (m ! i) (r ! i))) [0..<h])"
    by (rule arg_cong [where f = sum_list], rule map_cong)
       (simp_all add: map2_nth [where n = w] has_shape_row [OF m] has_shape_row [OF r])
  also have "\<dots> = sum_list (map2 (\<lambda>rm rr. sum_list (map2 sq_err rm rr)) m r)"
    using m r by (simp add: map2_nth [where n = h] has_shape_def)
  finally have s: "sum_list (map sint (concat D))
          = sum_list (map2 (\<lambda>rm rr. sum_list (map2 sq_err rm rr)) m r)" .
  have "np_mean D = Fin (mean_sq_diff m r)"
    by (simp only: np_mean_nonempty [OF ne] s len has_shape_count [OF m] mean_sq_diff_def)
  moreover have "sub_sq int32_of_uint8 m r = Inr D"
    unfolding D_def by (rule sub_sq_same_shape [OF m r h])
  ultimately show ?thesis
    by (simp add: mse_def bind_e_def)
qed

lemma mse_all_same_shape:
  assumes r: "has_shape h w r" and h: "0 < h" and w: "0 < w"
  shows "list_all (has_shape h w) masks \<Longrightarrow>
         mse_all int32_of_uint8 masks r = Inr (map (\<lambda>m. Fin (mean_sq_diff m r)) masks)"
proof (induction masks)
  case Nil
  show ?case by simp
next
  case (Cons m masks)
  then have "has_shape h w m" and "list_all (has_shape h w) masks" by simp_all
  then show ?case
    using Cons.IH by (simp add: mse_same_shape [OF _ r h w] bind_e_def)
qed

text \<open>
  C1. With a reference mask and \<open>interactive\<close> false, \<open>mask_selection\<close> returns a candidate
  whose mean squared pixel-wise difference against the reference is minimal among all
  candidates, and it is the first such candidate: every candidate before it is strictly
  farther from the reference. The answer does not depend on the scores. The candidates
  and the reference are uint8 masks of one shape with at least one pixel, and there is at
  least one candidate.
\<close>

theorem mask_selection_ref_min_mse:
  assumes shp: "list_all (has_shape h w) masks" and r: "has_shape h w ref_mask"
      and h: "0 < h" and w: "0 < w" and ne: "masks \<noteq> []"
  shows "\<exists>i<length masks.
           (\<forall>scores. mask_selection int32_of_uint8 masks scores (Some ref_mask) False = Inr (masks ! i))
         \<and> (\<forall>j<length masks. mean_sq_diff (masks ! i) ref_mask \<le> mean_sq_diff (masks ! j) ref_mask)
         \<and> (\<forall>j<i. mean_sq_diff (masks ! i) ref_mask < mean_sq_diff (masks ! j) ref_mask)"
proof -
  define vs where "vs = map (\<lambda>m. mean_sq_diff m ref_mask) masks"
  have len: "length vs = length masks" and nth: "\<And>j. j < length masks \<Longrightarrow> vs ! j = mean_sq_diff (masks ! j) ref_mask"
    by (simp_all add: vs_def)
  have "vs \<noteq> []" using ne by (simp add: vs_def)
  from argmin_first [OF this] obtain i where i: "i < length masks"
    and am: "argmin (map Fin vs) = Inr i"
    and mn: "\<forall>j<length masks. vs ! i \<le> vs ! j" and fst: "\<forall>j<i. vs ! i < vs ! j"
    using len by auto
  have all: "mse_all int32_of_uint8 masks ref_mask = Inr (map Fin vs)"
    by (simp add: mse_all_same_shape [OF r h w shp] vs_def)
  have "mask_selection int32_of_uint8 masks scores (Some ref_mask) False = Inr (masks ! i)" for scores
    by (simp add: mask_selection_def all bind_e_def am getitem_nat [OF i])
  moreover have "\<forall>j<length masks. mean_sq_diff (masks ! i) ref_mask \<le> mean_sq_diff (masks ! j) ref_mask"
    using mn i by (simp add: nth)
  moreover have "\<forall>j<i. mean_sq_diff (masks ! i) ref_mask < mean_sq_diff (masks ! j) ref_mask"
    using fst i by (simp add: nth)
  ultimately show ?thesis using i by blast
qed

text \<open>The definitions a concrete selection is evaluated with.\<close>

lemmas eval_sel = mask_selection_def argmin_def argmax_def mse_def sub_sq_def shape2_def
  broadcast_dim_def bidx_def bind_e_def np_mean_def getitem_def int32_of_uint8_def Let_def

text \<open>
  Three candidates, the last two equally close to the reference: the first of the two is
  returned.
\<close>

theorem mask_selection_ref_min_mse_witness:
  "list_all (has_shape 2 2) later_masks
   \<and> has_shape 2 2 key_mask1
   \<and> later_masks \<noteq> []
   \<and> (\<exists>i<length later_masks.
         (\<forall>scores. mask_selection int32_of_uint8 later_masks scores (Some key_mask1) False
                    = Inr (later_masks ! i))
         \<and> (\<forall>j<length later_masks.
               mean_sq_diff (later_masks ! i) key_mask1 \<le> mean_sq_diff (later_masks ! j) key_mask1)
         \<and> (\<forall>j<i. mean_sq_diff (later_masks ! i) key_mask1
                     < mean_sq_diff (later_masks ! j) key_mask1))
   \<and> mask_selection int32_of_uint8 later_masks [] (Some key_mask1) False = Inr [[255, 0], [0, 0]]
   \<and> map (\<lambda>m. mean_sq_diff m key_mask1) later_masks = [195075 / 4, 65025 / 4, 65025 / 4]"
proof -
  have shp: "list_all (has_shape 2 2) later_masks"
    and r: "has_shape 2 2 key_mask1"
    and ne: "later_masks \<noteq> []"
    by (simp_all add: has_shape_def later_masks_def key_mask1_def)
  have ev: "mask_selection int32_of_uint8 later_masks [] (Some key_mask1) False = Inr [[255, 0], [0, 0]]"
    by (simp add: eval_sel later_masks_def key_mask1_def upt_rec [of _ "numeral _"])
  have ms: "map (\<lambda>m. mean_sq_diff m key_mask1) later_masks = [195075 / 4, 65025 / 4, 65025 / 4]"
    by (simp add: mean_sq_diff_def sq_err_def later_masks_def key_mask1_def)
  from mask_selection_ref_min_mse [OF shp r _ _ ne]
  have ex: "\<exists>i<length later_masks.
         (\<forall>scores. mask_selection int32_of_uint8 later_masks scores (Some key_mask1) False
                    = Inr (later_masks ! i))
         \<and> (\<forall>j<length later_masks.
               mean_sq_diff (later_masks ! i) key_mask1 \<le> mean_sq_diff (later_masks ! j) key_mask1)
         \<and> (\<forall>j<i. mean_sq_diff (later_masks ! i) key_mask1
                     < mean_sq_diff (later_masks ! j) key_mask1)"
    by simp
  show ?thesis
    by (intro conjI) (rule shp r ne ex ev ms)+
qed

text \<open>
  C6. Without a reference mask and with \<open>interactive\<close> false, \<open>mask_selection\<close> returns the
  candidate at the first position where the score is maximal: no score is larger, and
  every earlier score is strictly smaller. The scores are numbers (none is NaN), one per
  candidate, and there is at least one.
\<close>

theorem mask_selection_noref_max_score:
  assumes len: "length masks = length vs" and ne: "vs \<noteq> []"
  shows "\<exists>i<length masks.
           mask_selection astype_int32 masks (map Fin vs) None False = Inr (masks ! i)
         \<and> (\<forall>j<length vs. vs ! j \<le> vs ! i)
         \<and> (\<forall>j<i. vs ! j < vs ! i)"
proof -
  from argmax_first [OF ne] obtain i where i: "i < length vs"
    and am: "argmax (map Fin vs) = Inr i"
    and mx: "\<forall>j<length vs. vs ! j \<le> vs ! i" and fst: "\<forall>j<i. vs ! j < vs ! i"
    by auto
  have "i < length masks" using i len by simp
  then have "mask_selection astype_int32 masks (map Fin vs) None False = Inr (masks ! i)"
    by (simp add: mask_selection_def bind_e_def am getitem_nat)
  with mx fst \<open>i < length masks\<close> show ?thesis by blast
qed

text \<open>Three candidates, the last two with the highest score: the first of the two is returned.\<close>

theorem mask_selection_noref_max_score_witness:
  "length key_cands = length key_scores
   \<and> key_scores \<noteq> []
   \<and> (\<exists>i<length key_cands.
         mask_selection int32_of_bool key_cands (map Fin key_scores) None False = Inr (key_cands ! i)
         \<and> (\<forall>j<length key_scores. key_scores ! j \<le> key_scores ! i)
         \<and> (\<forall>j<i. key_scores ! j < key_scores ! i))
   \<and> mask_selection int32_of_bool key_cands (map Fin key_scores) None False
      = Inr [[True, False], [False, True]]"
proof -
  have len: "length key_cands = length key_scores"
    and ne: "key_scores \<noteq> []"
    by (simp_all add: key_cands_def key_scores_def)
  have ev: "mask_selection int32_of_bool key_cands (map Fin key_scores) None False
      = Inr [[True, False], [False, True]]"
    by (simp add: eval_sel key_cands_def key_scores_def)
  note ex = mask_selection_noref_max_score [OF len ne, of int32_of_bool]
  show ?thesis
    by (intro conjI) (rule len ne ex ev)+
qed

section \<open>Properties of the pipeline\<close>

subsection \<open>What a computation that returns has done\<close>

lemma bind_r_Inr:
  "bind_r m f s = (Inr b, s') \<longleftrightarrow> (\<exists>a s1. m s = (Inr a, s1) \<and> f a s1 = (Inr b, s'))"
  by (auto simp: bind_r_def split: prod.splits sum.splits)

lemma ret_Inr: "ret a s = (Inr b, s') \<longleftrightarrow> b = a \<and> s' = s"
  by (auto simp: ret_def)

lemma lift_Inr: "lift m s = (Inr b, s') \<longleftrightarrow> m = Inr b \<and> s' = s"
  by (auto simp: lift_def)

lemma call_Inr: "call ev res s = (Inr b, s') \<longleftrightarrow> res = Inr b \<and> s' = s\<lparr>trace := trace s @ [ev]\<rparr>"
  by (auto simp: call_def)

lemma py_assert_Inr: "py_assert b s = (Inr u, s') \<longleftrightarrow> b \<and> s' = s"
  by (auto simp: py_assert_def ret_def lift_def)

lemma forward_segmentor_run:
  "forward_segmentor E img c l b s =
     (case set_image E img of
        Inl e \<Rightarrow> (Inl e, s\<lparr>trace := trace s @ [SetImage img]\<rparr>)
      | Inr u \<Rightarrow>
         (case predict E img \<lparr>point_coords = c, point_labels = l, box = b\<rparr> of
            Inl e \<Rightarrow> (Inl e, s\<lparr>sam_image := Some img,
                          trace := trace s @ [SetImage img,
                             Predict \<lparr>point_coords = c, point_labels = l, box = b\<rparr>]\<rparr>)
          | Inr r \<Rightarrow> (Inr r, s\<lparr>sam_image := None,
                          trace := trace s @ [SetImage img,
                             Predict \<lparr>point_coords = c, point_labels = l, box = b\<rparr>, ResetImage]\<rparr>)))"
  by (simp add: forward_segmentor_def bind_r_def sam_set_image_def sam_predict_def
      sam_reset_image_def call_def ret_def split: sum.splits)

lemma forward_segmentor_Inr:
  "forward_segmentor E img c l b s = (Inr r, s') \<Longrightarrow>
     predict E img \<lparr>point_coords = c, point_labels = l, box = b\<rparr> = Inr r"
  by (auto simp: forward_segmentor_run split: sum.splits)

lemma dilate_step_Inr:
  "(case dks of None \<Rightarrow> ret m | Some k \<Rightarrow> dilate E m k) s = (Inr m', s') \<Longrightarrow>
     dilate_opt E dks m = Inr m'"
  by (auto simp: dilate_opt_def ret_def dilate_def call_def split: option.splits)

lemma dilate_step_run:
  "(case dks of None \<Rightarrow> ret m | Some k \<Rightarrow> dilate E m k) s
     = (dilate_opt E dks m,
        case dks of None \<Rightarrow> s | Some k \<Rightarrow> s\<lparr>trace := trace s @ [Dilate m k]\<rparr>)"
  by (cases dks) (simp_all add: ret_def dilate_def call_def dilate_opt_def)

text \<open>
  What a loop that returns has done: it appended one frame and one mask per pair, each
  frame loaded from its path, each mask the (optionally dilated) selection made against
  the mask before it.
\<close>

lemma propagate_Inr:
  "propagate E dks zs ref_mask all_frame all_mask s = (Inr (af, am), s') \<Longrightarrow>
   \<exists>fs ms sels. af = all_frame @ fs \<and> am = all_mask @ ms
     \<and> length fs = length zs \<and> length ms = length zs \<and> length sels = length zs
     \<and> (\<forall>i<length zs. load_img_to_array E (fst (zs ! i)) = Inr (fs ! i)
            \<and> frame_select E (fs ! i) (snd (zs ! i)) ((ref_mask # ms) ! i) = Inr (sels ! i)
            \<and> dilate_opt E dks (sels ! i) = Inr (ms ! i))"
proof (induction zs arbitrary: ref_mask all_frame all_mask s)
  case Nil
  then show ?case by (simp add: ret_def)
next
  case (Cons z zs)
  obtain frame_p bx where z: "z = (frame_p, bx)" by (cases z)
  from Cons.prems obtain frame s1 res s2 sel s3 mask s4 where
    ld: "load E frame_p s = (Inr frame, s1)"
    and sg: "forward_segmentor E frame None None (Some (xywh_to_xyxy bx)) s1 = (Inr res, s2)"
    and ms: "mask_selection int32_of_uint8 (map binarize (fst res)) (snd res) (Some ref_mask) False = Inr sel"
    and dl: "(case dks of None \<Rightarrow> ret sel | Some k \<Rightarrow> dilate E sel k) s3 = (Inr mask, s4)"
    and rec: "propagate E dks zs mask (all_frame @ [frame]) (all_mask @ [mask]) s4 = (Inr (af, am), s')"
    unfolding z propagate.simps bind_r_Inr lift_Inr by blast
  from Cons.IH [OF rec] obtain fs ms' sels where
    af: "af = (all_frame @ [frame]) @ fs" and am: "am = (all_mask @ [mask]) @ ms'"
    and lf: "length fs = length zs" and lm: "length ms' = length zs" and ls: "length sels = length zs"
    and step: "\<forall>i<length zs. load_img_to_array E (fst (zs ! i)) = Inr (fs ! i)
            \<and> frame_select E (fs ! i) (snd (zs ! i)) ((mask # ms') ! i) = Inr (sels ! i)
            \<and> dilate_opt E dks (sels ! i) = Inr (ms' ! i)"
    by blast
  have l0: "load_img_to_array E frame_p = Inr frame"
    using ld by (simp add: load_def call_Inr)
  have f0: "frame_select E frame bx ref_mask = Inr sel"
    using forward_segmentor_Inr [OF sg] ms by (simp add: frame_select_def bind_e_def)
  have d0: "dilate_opt E dks sel = Inr mask" by (rule dilate_step_Inr [OF dl])
  have "\<forall>i<length (z # zs). load_img_to_array E (fst ((z # zs) ! i)) = Inr ((frame # fs) ! i)
            \<and> frame_select E ((frame # fs) ! i) (snd ((z # zs) ! i)) ((ref_mask # mask # ms') ! i)
                  = Inr ((sel # sels) ! i)
            \<and> dilate_opt E dks ((sel # sels) ! i) = Inr ((mask # ms') ! i)"
  proof (intro allI impI)
    fix i assume "i < length (z # zs)"
    then show "load_img_to_array E (fst ((z # zs) ! i)) = Inr ((frame # fs) ! i)
            \<and> frame_select E ((frame # fs) ! i) (snd ((z # zs) ! i)) ((ref_mask # mask # ms') ! i)
                  = Inr ((sel # sels) ! i)
            \<and> dilate_opt E dks ((sel # sels) ! i) = Inr ((mask # ms') ! i)"
      using l0 f0 d0 step z by (cases i) auto
  qed
  then show ?case
    using af am lf lm ls
    by (intro exI [of _ "frame # fs"] exI [of _ "mask # ms'"] exI [of _ "sel # sels"]) simp
qed

text \<open>What a run of \<open>forward\<close> that returns has done.\<close>

lemma forward_Inr:
  assumes run: "forward E ps kidx coords labels midx dks s = (Inr (frames, masks, boxes), s')"
  shows "kidx = 0 \<and> (\<exists>p0 kf sel0 km kb fs ms sels.
           getitem ps 0 = Inr p0 \<and> load_img_to_array E p0 = Inr kf
         \<and> key_select E kf coords labels (arg_or None midx) = Inr sel0
         \<and> dilate_opt E (arg_or (Some 15) dks) sel0 = Inr km
         \<and> boundingRect E km = Inr kb \<and> get_box_using_ostrack E ps kb = Inr boxes
         \<and> frames = kf # fs \<and> masks = km # ms
         \<and> length fs = length (zip (drop 1 ps) (drop 1 boxes))
         \<and> length ms = length (zip (drop 1 ps) (drop 1 boxes))
         \<and> length sels = length (zip (drop 1 ps) (drop 1 boxes))
         \<and> (\<forall>i<length (zip (drop 1 ps) (drop 1 boxes)).
               load_img_to_array E (fst (zip (drop 1 ps) (drop 1 boxes) ! i)) = Inr (fs ! i)
             \<and> frame_select E (fs ! i) (snd (zip (drop 1 ps) (drop 1 boxes) ! i)) ((km # ms) ! i)
                  = Inr (sels ! i)
             \<and> dilate_opt E (arg_or (Some 15) dks) (sels ! i) = Inr (ms ! i)))"
proof -
  let ?dks = "arg_or (Some 15) dks"
  from run obtain u0 s0 key_frame_p s1 key_frame s2 res s3 key_sel s4 key_mask s5 u6 s6 key_box s7
      all_box s8 acc s9 where
    as: "py_assert (kidx = 0) s = (Inr u0, s0)"
    and gi: "getitem ps kidx = Inr key_frame_p"
    and ld: "load E key_frame_p s1 = (Inr key_frame, s2)"
    and sg: "forward_segmentor E key_frame (Some coords) (Some labels) None s2 = (Inr res, s3)"
    and ks: "(case arg_or None midx of Some i \<Rightarrow> getitem (fst res) i
              | None \<Rightarrow> mask_selection int32_of_bool (fst res) (snd res) None False) = Inr key_sel"
    and dl: "(case ?dks of None \<Rightarrow> ret (binarize key_sel)
              | Some k \<Rightarrow> dilate E (binarize key_sel) k) s4 = (Inr key_mask, s5)"
    and sv: "save E key_mask ''mask.png'' s5 = (Inr u6, s6)"
    and gb: "get_box_from_mask E key_mask s6 = (Inr key_box, s7)"
    and tr: "forward_tracker E ps key_box s7 = (Inr all_box, s8)"
    and pr: "propagate E ?dks (zip (drop 1 ps) (drop 1 all_box)) key_mask [key_frame] [key_mask] s8
               = (Inr acc, s9)"
    and rt: "frames = fst acc" "masks = snd acc" "boxes = all_box"
    unfolding forward_def Let_def bind_r_Inr lift_Inr ret_Inr prod.inject by blast
  have k0: "kidx = 0" using as by (simp add: py_assert_Inr)
  have l0: "load_img_to_array E key_frame_p = Inr key_frame"
    using ld by (simp add: load_def call_Inr)
  have sel: "key_select E key_frame coords labels (arg_or None midx) = Inr (binarize key_sel)"
    using forward_segmentor_Inr [OF sg] ks by (simp add: key_select_def bind_e_def)
  have d0: "dilate_opt E ?dks (binarize key_sel) = Inr key_mask"
    by (rule dilate_step_Inr [OF dl])
  have br: "boundingRect E key_mask = Inr key_box"
    using gb by (simp add: get_box_from_mask_def call_Inr)
  have tk: "get_box_using_ostrack E ps key_box = Inr boxes"
    using tr rt by (simp add: forward_tracker_def call_Inr)
  have pr': "propagate E ?dks (zip (drop 1 ps) (drop 1 boxes)) key_mask [key_frame] [key_mask] s8
               = (Inr (frames, masks), s9)"
    using pr rt by simp
  from propagate_Inr [OF pr'] obtain fs ms sels where
    fr: "frames = [key_frame] @ fs" and mk: "masks = [key_mask] @ ms"
    and lens: "length fs = length (zip (drop 1 ps) (drop 1 boxes))"
    "length ms = length (zip (drop 1 ps) (drop 1 boxes))"
    "length sels = length (zip (drop 1 ps) (drop 1 boxes))"
    and step: "\<forall>i<length (zip (drop 1 ps) (drop 1 boxes)).
               load_img_to_array E (fst (zip (drop 1 ps) (drop 1 boxes) ! i)) = Inr (fs ! i)
             \<and> frame_select E (fs ! i) (snd (zip (drop 1 ps) (drop 1 boxes) ! i)) ((key_mask # ms) ! i)
                  = Inr (sels ! i)
             \<and> dilate_opt E ?dks (sels ! i) = Inr (ms ! i)"
    by blast
  have fr': "frames = key_frame # fs" and mk': "masks = key_mask # ms"
    using fr mk by simp_all
  have g0: "getitem ps 0 = Inr key_frame_p" using gi k0 by simp
  show ?thesis
    using k0 g0 l0 sel d0 br tk fr' mk' lens step by blast
qed

subsection \<open>Two runs of the model\<close>

text \<open>The definitions a concrete run is evaluated with, and the two runs used below.\<close>

lemmas eval_run = forward_def propagate.simps bind_r_def ret_def lift_def call_def py_assert_def
  load_def dilate_def save_def sam_set_image_def sam_predict_def sam_reset_image_def
  forward_segmentor_def get_box_from_mask_def forward_tracker_def arg_or_def binarize_def
  xywh_to_xyxy_def

lemmas eval_demo = demo_run_def demo_env_def demo_load_def demo_predict_def demo_tracker_def
  demo_paths_def demo_frames_def demo_boxes_def plain_masks_def grown_masks_def
  frame0_def frame1_def frame2_def key_cands_def later_cands_def key_scores_def state0_def

lemmas eval_dilate = dilate_square_def window_def pix_def

lemma demo_run_None: "fst (demo_run (Given None)) = Inr (demo_frames, plain_masks, demo_boxes)"
  by (simp add: eval_run eval_demo eval_sel upt_rec [of _ "numeral _"])

lemma demo_run_0: "fst (demo_run (Given (Some 0))) = Inr (demo_frames, grown_masks, demo_boxes)"
  by (simp add: eval_run eval_demo eval_sel eval_dilate upt_rec [of _ "numeral _"])

lemma demo_run_None_full:
  "forward demo_env demo_paths 0 [[1, 1]] [1] (Given (Some 1)) (Given None) state0
     = (Inr (demo_frames, plain_masks, demo_boxes), snd (demo_run (Given None)))"
  using demo_run_None by (simp add: demo_run_def prod_eq_iff)

lemma demo_run_0_full:
  "forward demo_env demo_paths 0 [[1, 1]] [1] (Given (Some 1)) (Given (Some 0)) state0
     = (Inr (demo_frames, grown_masks, demo_boxes), snd (demo_run (Given (Some 0))))"
  using demo_run_0 by (simp add: demo_run_def prod_eq_iff)

subsection \<open>The key-frame precondition\<close>

text \<open>
  C3. When the key-frame index is not 0, \<open>forward\<close> raises AssertionError and the state is
  the one it started in: the predictor holds what it held, no file was written and the
  record of calls has not grown, so neither the segmentor nor the tracker was called (the
  inpainter is called nowhere in \<open>forward\<close>). Nothing catches the exception.
\<close>

theorem forward_asserts_key_frame_idx:
  "kidx \<noteq> 0 \<Longrightarrow> forward E ps kidx coords labels midx dks s = (Inl AssertionError, s)"
  by (simp add: forward_def py_assert_def bind_r_def lift_def)

theorem forward_asserts_key_frame_idx_witness:
  "(1 :: int) \<noteq> 0
   \<and> forward demo_env demo_paths 1 [[1, 1]] [1] Omitted Omitted state0 = (Inl AssertionError, state0)"
  using forward_asserts_key_frame_idx [of 1 demo_env demo_paths "[[1, 1]]" "[1]" Omitted Omitted state0]
  by simp

subsection \<open>The chain of reference masks\<close>

text \<open>
  C7. In a run of \<open>forward\<close> that returns, for every index \<open>i > 0\<close> of a recorded mask:
  frame \<open>i\<close> was loaded from path \<open>i\<close>, and mask \<open>i\<close> is the (optionally dilated) result of
  the selection among the binarised candidates of frame \<open>i\<close>, prompted with box \<open>i\<close>, with
  mask \<open>i - 1\<close> of the result as the reference. For \<open>i = 1\<close> the reference is the key-frame
  mask.
\<close>

theorem forward_masks_chained:
  assumes run: "forward E ps kidx coords labels midx dks s = (Inr (frames, masks, boxes), s')"
      and i: "0 < i" "i < length masks"
  shows "i < length ps \<and> i < length boxes \<and> length frames = length masks
       \<and> load_img_to_array E (ps ! i) = Inr (frames ! i)
       \<and> (\<exists>sel. frame_select E (frames ! i) (boxes ! i) (masks ! (i - 1)) = Inr sel
                \<and> dilate_opt E (arg_or (Some 15) dks) sel = Inr (masks ! i))"
proof -
  let ?zs = "zip (drop 1 ps) (drop 1 boxes)"
  from forward_Inr [OF run] obtain kf km fs ms sels where
    fr: "frames = kf # fs" and mk: "masks = km # ms"
    and lf: "length fs = length ?zs" and lm: "length ms = length ?zs"
    and step: "\<forall>j<length ?zs.
               load_img_to_array E (fst (?zs ! j)) = Inr (fs ! j)
             \<and> frame_select E (fs ! j) (snd (?zs ! j)) ((km # ms) ! j) = Inr (sels ! j)
             \<and> dilate_opt E (arg_or (Some 15) dks) (sels ! j) = Inr (ms ! j)"
    by blast
  obtain j where j: "i = Suc j" using i(1) by (cases i) auto
  have jl: "j < length ?zs" using i(2) mk lm j by simp
  then have jp: "j < length (drop 1 ps)" and jb: "j < length (drop 1 boxes)" by simp_all
  have z: "?zs ! j = (ps ! i, boxes ! i)"
    using jp jb j by (simp add: nth_zip)
  from step jl have "load_img_to_array E (fst (?zs ! j)) = Inr (fs ! j)"
    and "frame_select E (fs ! j) (snd (?zs ! j)) ((km # ms) ! j) = Inr (sels ! j)"
    and "dilate_opt E (arg_or (Some 15) dks) (sels ! j) = Inr (ms ! j)"
    by blast+
  then show ?thesis
    using z j fr mk lf lm jp jb by auto
qed

theorem forward_masks_chained_witness:
  "forward demo_env demo_paths 0 [[1, 1]] [1] (Given (Some 1)) (Given None) state0
     = (Inr (demo_frames, plain_masks, demo_boxes), snd (demo_run (Given None)))
   \<and> (0 :: nat) < 2 \<and> 2 < length plain_masks
   \<and> 2 < length demo_paths \<and> 2 < length demo_boxes \<and> length demo_frames = length plain_masks
   \<and> load_img_to_array demo_env (demo_paths ! 2) = Inr (demo_frames ! 2)
   \<and> (\<exists>sel. frame_select demo_env (demo_frames ! 2) (demo_boxes ! 2) (plain_masks ! (2 - 1)) = Inr sel
            \<and> dilate_opt demo_env (arg_or (Some 15) (Given None)) sel = Inr (plain_masks ! 2))"
proof -
  have i: "(0 :: nat) < 2" "2 < length plain_masks" by (simp_all add: plain_masks_def)
  note concl = forward_masks_chained [OF demo_run_None_full i]
  show ?thesis
    by (intro conjI) (rule demo_run_None_full i | use concl in blast)+
qed

subsection \<open>Three frames and a manual key-frame index\<close>

lemma key_select_manual:
  "key_select E kf coords labels (Some j) = Inr sel \<Longrightarrow>
   \<exists>key_masks key_scores cand.
      predict E kf \<lparr>point_coords = Some coords, point_labels = Some labels, box = None\<rparr>
        = Inr (key_masks, key_scores)
    \<and> getitem key_masks j = Inr cand \<and> sel = binarize cand"
  by (auto simp: key_select_def bind_e_def split: sum.splits)

lemma frame_select_Inr:
  "frame_select E f bx r = Inr sel \<Longrightarrow>
   \<exists>res. predict E f \<lparr>point_coords = None, point_labels = None, box = Some (xywh_to_xyxy bx)\<rparr>
            = Inr res
       \<and> mask_selection int32_of_uint8 (map binarize (fst res)) (snd res) (Some r) False = Inr sel"
  by (auto simp: frame_select_def bind_e_def split: sum.splits)

lemma key_select_Inr:
  "key_select E kf coords labels midx = Inr sel \<Longrightarrow>
   \<exists>res cand. predict E kf \<lparr>point_coords = Some coords, point_labels = Some labels, box = None\<rparr>
            = Inr res
       \<and> (case midx of Some i \<Rightarrow> getitem (fst res) i
           | None \<Rightarrow> mask_selection int32_of_bool (fst res) (snd res) None False) = Inr cand
       \<and> sel = binarize cand"
  by (auto simp: key_select_def bind_e_def split: sum.splits)

text \<open>
  A run on three frames returns when every step it takes succeeds, and then returns the
  three frames, the three masks made along the way and the tracker's three boxes.
\<close>

lemma forward_three_frames_returns:
  assumes ld: "load_img_to_array E p0 = Inr f0" "load_img_to_array E p1 = Inr f1"
              "load_img_to_array E p2 = Inr f2"
      and si: "set_image E f0 = Inr ()" "set_image E f1 = Inr ()" "set_image E f2 = Inr ()"
      and ks: "key_select E f0 coords labels (arg_or None midx) = Inr sel0"
      and d0: "dilate_opt E (arg_or (Some 15) dks) sel0 = Inr m0"
      and sv: "save_array_to_img E m0 ''mask.png'' = Inr ()"
      and br: "boundingRect E m0 = Inr kb"
      and tk: "get_box_using_ostrack E [p0, p1, p2] kb = Inr [b0, b1, b2]"
      and f1: "frame_select E f1 b1 m0 = Inr sel1"
      and d1: "dilate_opt E (arg_or (Some 15) dks) sel1 = Inr m1"
      and f2: "frame_select E f2 b2 m1 = Inr sel2"
      and d2: "dilate_opt E (arg_or (Some 15) dks) sel2 = Inr m2"
  shows "fst (forward E [p0, p1, p2] 0 coords labels midx dks s)
           = Inr ([f0, f1, f2], [m0, m1, m2], [b0, b1, b2])"
proof -
  from key_select_Inr [OF ks] obtain res0 cand where
    p0: "predict E f0 \<lparr>point_coords = Some coords, point_labels = Some labels, box = None\<rparr> = Inr res0"
    and c0: "(case arg_or None midx of Some i \<Rightarrow> getitem (fst res0) i
           | None \<Rightarrow> mask_selection int32_of_bool (fst res0) (snd res0) None False) = Inr cand"
    and s0: "sel0 = binarize cand" by blast
  from frame_select_Inr [OF f1] obtain res1 where
    p1: "predict E f1 \<lparr>point_coords = None, point_labels = None, box = Some (xywh_to_xyxy b1)\<rparr> = Inr res1"
    and c1: "mask_selection int32_of_uint8 (map binarize (fst res1)) (snd res1) (Some m0) False = Inr sel1"
    by blast
  from frame_select_Inr [OF f2] obtain res2 where
    p2: "predict E f2 \<lparr>point_coords = None, point_labels = None, box = Some (xywh_to_xyxy b2)\<rparr> = Inr res2"
    and c2: "mask_selection int32_of_uint8 (map binarize (fst res2)) (snd res2) (Some m1) False = Inr sel2"
    by blast
  have d0': "dilate_opt E (arg_or (Some 15) dks) (binarize cand) = Inr m0" using d0 s0 by simp
  show ?thesis
    unfolding forward_def Let_def
    by (simp add: bind_r_def py_assert_def ret_def lift_def getitem_def load_def call_def ld
        forward_segmentor_run si p0 c0 dilate_step_run d0' save_def sv get_box_from_mask_def br
        forward_tracker_def tk p1 c1 d1 p2 c2 d2)
qed

text \<open>
  C2. A run of \<open>forward\<close> on three frame paths with key-frame index 0, a point prompt and
  the manual index \<open>j\<close>, with a tracker that returns one box per frame, returns three
  frames, three masks and three boxes; the frames are the images loaded from the three
  paths in their order, the boxes are the tracker's; and mask 0 is the key-frame candidate
  at index \<open>j\<close>, binarised and optionally dilated, whatever the scores are.
\<close>

theorem forward_three_frames:
  assumes run: "forward E [p0, p1, p2] 0 coords labels (Given (Some j)) dks s
                  = (Inr (frames, masks, boxes), s')"
      and tracker: "\<forall>b bs. get_box_using_ostrack E [p0, p1, p2] b = Inr bs \<longrightarrow> length bs = 3"
  shows "length frames = 3 \<and> length masks = 3 \<and> length boxes = 3
       \<and> map (load_img_to_array E) [p0, p1, p2] = map Inr frames
       \<and> (\<exists>key_masks key_scores cand.
             predict E (frames ! 0)
               \<lparr>point_coords = Some coords, point_labels = Some labels, box = None\<rparr>
               = Inr (key_masks, key_scores)
           \<and> getitem key_masks j = Inr cand
           \<and> dilate_opt E (arg_or (Some 15) dks) (binarize cand) = Inr (masks ! 0))
       \<and> (\<exists>key_box. boundingRect E (masks ! 0) = Inr key_box
                    \<and> get_box_using_ostrack E [p0, p1, p2] key_box = Inr boxes)"
proof -
  let ?ps = "[p0, p1, p2]"
  let ?zs = "zip (drop 1 ?ps) (drop 1 boxes)"
  from forward_Inr [OF run] obtain q kf sel0 km kb fs ms sels where
    gi: "getitem ?ps 0 = Inr q" and l0: "load_img_to_array E q = Inr kf"
    and ks: "key_select E kf coords labels (arg_or None (Given (Some j))) = Inr sel0"
    and d0: "dilate_opt E (arg_or (Some 15) dks) sel0 = Inr km"
    and br: "boundingRect E km = Inr kb" and tk: "get_box_using_ostrack E ?ps kb = Inr boxes"
    and fr: "frames = kf # fs" and mk: "masks = km # ms"
    and lf: "length fs = length ?zs" and lm: "length ms = length ?zs"
    and step: "\<forall>i<length ?zs. load_img_to_array E (fst (?zs ! i)) = Inr (fs ! i)
             \<and> frame_select E (fs ! i) (snd (?zs ! i)) ((km # ms) ! i) = Inr (sels ! i)
             \<and> dilate_opt E (arg_or (Some 15) dks) (sels ! i) = Inr (ms ! i)"
    by blast
  have lb: "length boxes = 3" using tracker tk by blast
  then have lz: "length ?zs = 2" by simp
  have q: "q = p0" using gi by (simp add: getitem_def)
  obtain f1 f2 where fs: "fs = [f1, f2]"
    using lf lz by (cases fs; cases "tl fs") auto
  have z0: "fst (?zs ! 0) = p1" and z1: "fst (?zs ! 1) = p2"
    using lb by (simp_all add: nth_zip)
  have i0: "0 < length ?zs" and i1: "1 < length ?zs"
    unfolding lz by simp_all
  have "load_img_to_array E (fst (?zs ! 0)) = Inr (fs ! 0)"
    and "load_img_to_array E (fst (?zs ! 1)) = Inr (fs ! 1)"
    using step [rule_format, OF i0] step [rule_format, OF i1] by blast+
  then have "load_img_to_array E p1 = Inr f1" "load_img_to_array E p2 = Inr f2"
    unfolding z0 z1 fs by simp_all
  then have loads: "map (load_img_to_array E) ?ps = map Inr frames"
    using l0 q fr fs by simp
  from key_select_manual [of E kf coords labels j sel0] ks
  obtain key_masks key_scores cand where
    "predict E kf \<lparr>point_coords = Some coords, point_labels = Some labels, box = None\<rparr>
        = Inr (key_masks, key_scores)"
    "getitem key_masks j = Inr cand" "sel0 = binarize cand"
    by (auto simp: arg_or_def)
  then have key: "\<exists>key_masks key_scores cand.
             predict E (frames ! 0)
               \<lparr>point_coords = Some coords, point_labels = Some labels, box = None\<rparr>
               = Inr (key_masks, key_scores)
           \<and> getitem key_masks j = Inr cand
           \<and> dilate_opt E (arg_or (Some 15) dks) (binarize cand) = Inr (masks ! 0)"
    using d0 fr mk by auto
  have box: "\<exists>key_box. boundingRect E (masks ! 0) = Inr key_box
                    \<and> get_box_using_ostrack E ?ps key_box = Inr boxes"
    using br tk mk by auto
  show ?thesis
    using fr mk fs lm lz lb loads key box by simp
qed

theorem forward_three_frames_witness:
  "forward demo_env [''f0.jpg'', ''f1.jpg'', ''f2.jpg''] 0 [[1, 1]] [1] (Given (Some 1)) (Given None) state0
     = (Inr (demo_frames, plain_masks, demo_boxes), snd (demo_run (Given None)))
   \<and> length demo_frames = 3 \<and> length plain_masks = 3 \<and> length demo_boxes = 3
   \<and> map (load_img_to_array demo_env) [''f0.jpg'', ''f1.jpg'', ''f2.jpg''] = map Inr demo_frames
   \<and> (\<exists>key_masks key_scores cand.
         predict demo_env (demo_frames ! 0)
           \<lparr>point_coords = Some [[1, 1]], point_labels = Some [1], box = None\<rparr>
           = Inr (key_masks, key_scores)
       \<and> getitem key_masks 1 = Inr cand
       \<and> dilate_opt demo_env (arg_or (Some 15) (Given None)) (binarize cand) = Inr (plain_masks ! 0))
   \<and> (\<exists>key_box. boundingRect demo_env (plain_masks ! 0) = Inr key_box
                \<and> get_box_using_ostrack demo_env [''f0.jpg'', ''f1.jpg'', ''f2.jpg''] key_box
                    = Inr demo_boxes)"
proof -
  have run: "forward demo_env [''f0.jpg'', ''f1.jpg'', ''f2.jpg''] 0 [[1, 1]] [1] (Given (Some 1))
               (Given None) state0
     = (Inr (demo_frames, plain_masks, demo_boxes), snd (demo_run (Given None)))"
    using demo_run_None_full by (simp add: demo_paths_def)
  have tracker: "\<forall>b bs. get_box_using_ostrack demo_env [''f0.jpg'', ''f1.jpg'', ''f2.jpg''] b = Inr bs
                   \<longrightarrow> length bs = 3"
    by (auto simp: demo_env_def demo_tracker_def)
  note concl = forward_three_frames [OF run tracker]
  show ?thesis
    by (intro conjI) (rule run | use concl in blast)+
qed

subsection \<open>Masks of 0 and 255\<close>

lemma binary_binarize: "binary_mask (binarize m)"
  by (simp add: binary_mask_def binarize_def list_all_iff)

lemma getitem_mem: "getitem xs i = Inr x \<Longrightarrow> x \<in> set xs"
  by (auto simp: getitem_def split: if_splits)

lemma mask_selection_mem:
  "mask_selection c masks scores r interactive = Inr m \<Longrightarrow> m \<in> set masks"
  by (auto simp: mask_selection_def bind_e_def split: if_splits sum.splits dest: getitem_mem)

lemma key_select_binary: "key_select E kf coords labels midx = Inr m \<Longrightarrow> binary_mask m"
  by (auto simp: key_select_def bind_e_def binary_binarize split: sum.splits)

lemma frame_select_binary: "frame_select E f bx r = Inr m \<Longrightarrow> binary_mask m"
proof -
  assume "frame_select E f bx r = Inr m"
  then obtain res where
    "mask_selection int32_of_uint8 (map binarize (fst res)) (snd res) (Some r) False = Inr m"
    by (auto simp: frame_select_def bind_e_def split: sum.splits)
  then have "m \<in> set (map binarize (fst res))" by (rule mask_selection_mem)
  then show ?thesis by (auto simp: binary_binarize)
qed

lemma dilate_opt_binary:
  "dilate_keeps_binary E \<Longrightarrow> binary_mask m \<Longrightarrow> dilate_opt E dks m = Inr m' \<Longrightarrow> binary_mask m'"
  by (cases dks) (auto simp: dilate_opt_def dilate_keeps_binary_def)

text \<open>
  C8. In a run of \<open>forward\<close> that returns, every mask of the result has only the pixel
  values 0 and 255. The segmentor's candidates are boolean arrays (by their type); the
  binarisation turns them into 0 and 255; the selection returns one of the candidates
  unchanged; and dilation, when it runs, is assumed to keep a mask of 0 and 255 one, as
  a maximum filter does.
\<close>

theorem forward_masks_binary:
  assumes run: "forward E ps kidx coords labels midx dks s = (Inr (frames, masks, boxes), s')"
      and dil: "dilate_keeps_binary E"
  shows "list_all binary_mask masks"
proof -
  let ?zs = "zip (drop 1 ps) (drop 1 boxes)"
  let ?dks = "arg_or (Some 15) dks"
  from forward_Inr [OF run] obtain kf sel0 km fs ms sels where
    ks: "key_select E kf coords labels (arg_or None midx) = Inr sel0"
    and d0: "dilate_opt E ?dks sel0 = Inr km"
    and mk: "masks = km # ms" and lm: "length ms = length ?zs"
    and step: "\<forall>i<length ?zs. load_img_to_array E (fst (?zs ! i)) = Inr (fs ! i)
             \<and> frame_select E (fs ! i) (snd (?zs ! i)) ((km # ms) ! i) = Inr (sels ! i)
             \<and> dilate_opt E ?dks (sels ! i) = Inr (ms ! i)"
    by blast
  have km: "binary_mask km"
    using dilate_opt_binary [OF dil key_select_binary [OF ks] d0] .
  have "binary_mask (ms ! i)" if "i < length ms" for i
  proof -
    from that lm have "i < length ?zs" by (simp only:)
    from step [rule_format, OF this]
    have "frame_select E (fs ! i) (snd (?zs ! i)) ((km # ms) ! i) = Inr (sels ! i)"
      and "dilate_opt E ?dks (sels ! i) = Inr (ms ! i)" by blast+
    then show ?thesis
      using dilate_opt_binary [OF dil frame_select_binary] by blast
  qed
  then have "list_all binary_mask ms" by (simp add: list_all_length)
  with km mk show ?thesis by simp
qed

text \<open>
  The stand-in dilation meets the assumption: each of its pixels is 0 or a pixel of its
  argument.
\<close>

lemma fold_max_mem: "fold max xs a \<in> insert a (set xs)" for a :: "'a::linorder"
  by (induction xs arbitrary: a) (auto simp: max_def)

lemma pix_binary: "binary_mask m \<Longrightarrow> pix m i j = 0 \<or> pix m i j = 255"
  by (auto simp: pix_def binary_mask_def list_all_length)

lemma dilate_square_binary:
  assumes m: "binary_mask m" and d: "dilate_square m k = Inr m'"
  shows "binary_mask m'"
proof -
  have px: "fold max (concat (map (\<lambda>i. map (\<lambda>j. pix m i j) cols) rows)) 0 = 0
          \<or> fold max (concat (map (\<lambda>i. map (\<lambda>j. pix m i j) cols) rows)) 0 = 255" for rows cols
  proof -
    have "fold max (concat (map (\<lambda>i. map (\<lambda>j. pix m i j) cols) rows)) 0
            \<in> insert 0 (set (concat (map (\<lambda>i. map (\<lambda>j. pix m i j) cols) rows)))"
      by (rule fold_max_mem)
    then show ?thesis using pix_binary [OF m] by fastforce
  qed
  from d show ?thesis
    by (auto simp: dilate_square_def Let_def binary_mask_def list_all_iff split: if_splits)
       (use px in blast)+
qed

lemma demo_env_keeps_binary: "dilate_keeps_binary demo_env"
  unfolding dilate_keeps_binary_def by (auto simp: demo_env_def intro: dilate_square_binary)

theorem forward_masks_binary_witness:
  "forward demo_env demo_paths 0 [[1, 1]] [1] (Given (Some 1)) (Given (Some 0)) state0
     = (Inr (demo_frames, grown_masks, demo_boxes), snd (demo_run (Given (Some 0))))
   \<and> dilate_keeps_binary demo_env
   \<and> list_all binary_mask grown_masks"
  using forward_masks_binary [OF demo_run_0_full demo_env_keeps_binary]
    demo_run_0_full demo_env_keeps_binary by simp

subsection \<open>The image held by the segmentor\<close>

text \<open>
  C5, as the code has it. The predictor holds at most one image at any time (the state has
  room for one). When \<open>set_image\<close> has succeeded, \<open>forward_segmentor\<close> ends in one of two
  ways: \<open>predict\<close> returns, and then the result is returned and the image has been
  released; or \<open>predict\<close> raises, and then the exception leaves \<open>forward_segmentor\<close> with
  the image still held, because \<open>reset_image\<close> is an ordinary statement after the call
  and nothing guards it.
\<close>

theorem forward_segmentor_release:
  assumes "set_image E img = Inr ()"
  shows "case predict E img \<lparr>point_coords = c, point_labels = l, box = b\<rparr> of
           Inr r \<Rightarrow> fst (forward_segmentor E img c l b s) = Inr r
                  \<and> sam_image (snd (forward_segmentor E img c l b s)) = None
         | Inl e \<Rightarrow> fst (forward_segmentor E img c l b s) = Inl e
                  \<and> sam_image (snd (forward_segmentor E img c l b s)) = Some img"
  using assms by (simp add: forward_segmentor_run split: sum.splits)

theorem forward_segmentor_release_witness:
  "set_image demo_env frame1 = Inr ()
   \<and> fst (forward_segmentor demo_env frame1 None None (Some (0, 1, 2, 2)) state0)
       = Inr (later_cands, [Fin (1 / 2), Fin (3 / 5), Fin (7 / 10)])
   \<and> sam_image (snd (forward_segmentor demo_env frame1 None None (Some (0, 1, 2, 2)) state0)) = None"
proof -
  have h: "set_image demo_env frame1 = Inr ()" by (simp add: demo_env_def)
  have p: "predict demo_env frame1 \<lparr>point_coords = None, point_labels = None, box = Some (0, 1, 2, 2)\<rparr>
             = Inr (later_cands, [Fin (1 / 2), Fin (3 / 5), Fin (7 / 10)])"
    by (simp add: demo_env_def demo_predict_def frame0_def frame1_def)
  show ?thesis
    using forward_segmentor_release [OF h, of None None "Some (0, 1, 2, 2)" state0] h
    by (simp add: p)
qed

text \<open>
  The claim that the image is released on every exit path fails when \<open>predict\<close> raises:
  the predictor held nothing before the call and holds the frame after it.
\<close>

theorem forward_segmentor_keeps_image_on_failure:
  "fst (forward_segmentor failing_env frame0 None None None state0) = Inl RuntimeError
   \<and> sam_image (snd (forward_segmentor failing_env frame0 None None None state0)) = Some frame0
   \<and> sam_image state0 = None"
  by (simp add: forward_segmentor_run failing_env_def demo_env_def state0_def)

subsection \<open>Computations that write no file\<close>

lemma keeps_ret: "keeps (ret a)"
  by (simp add: keeps_def ret_def)

lemma keeps_lift: "keeps (lift m)"
  by (simp add: keeps_def lift_def)

lemma keeps_call: "keeps (call ev res)"
  by (simp add: keeps_def call_def)

lemma keeps_bind: "keeps m \<Longrightarrow> (\<And>a. keeps (f a)) \<Longrightarrow> keeps (bind_r m f)"
  unfolding keeps_def bind_r_def
proof (intro allI)
  fix s
  assume m: "\<forall>s. files (snd (m s)) = files s \<and> (\<exists>t. trace (snd (m s)) = trace s @ t)"
    and f: "\<And>a. \<forall>s. files (snd (f a s)) = files s \<and> (\<exists>t. trace (snd (f a s)) = trace s @ t)"
  obtain r s1 where ms: "m s = (r, s1)" by (cases "m s")
  from m ms obtain t1 where s1: "files s1 = files s" "trace s1 = trace s @ t1"
    by (metis snd_conv)
  show "files (snd (case m s of (Inl e, s') \<Rightarrow> (Inl e, s') | (Inr a, s') \<Rightarrow> f a s')) = files s
      \<and> (\<exists>t. trace (snd (case m s of (Inl e, s') \<Rightarrow> (Inl e, s') | (Inr a, s') \<Rightarrow> f a s')) = trace s @ t)"
  proof (cases r)
    case (Inl e)
    then show ?thesis using ms s1 by simp
  next
    case (Inr a)
    from f [of a] obtain t2 where "files (snd (f a s1)) = files s1" "trace (snd (f a s1)) = trace s1 @ t2"
      by blast
    then show ?thesis using ms s1 Inr by simp
  qed
qed

lemma keeps_forward_segmentor: "keeps (forward_segmentor E img c l b)"
  by (simp add: keeps_def forward_segmentor_run split: sum.splits)

lemma keeps_dilate_step: "keeps (case dks of None \<Rightarrow> ret m | Some k \<Rightarrow> dilate E m k)"
  by (cases dks) (simp_all add: keeps_ret dilate_def keeps_call)

lemma keeps_propagate: "keeps (propagate E dks zs ref_mask all_frame all_mask)"
proof (induction zs arbitrary: ref_mask all_frame all_mask)
  case Nil
  show ?case by (simp add: keeps_ret)
next
  case (Cons z zs)
  obtain frame_p bx where z: "z = (frame_p, bx)" by (cases z)
  show ?case
    unfolding z propagate.simps
    by (intro keeps_bind keeps_call keeps_forward_segmentor keeps_lift keeps_dilate_step Cons.IH)
       (simp add: load_def keeps_call)
qed

lemma keeps_files: "keeps m \<Longrightarrow> files (snd (m s)) = files s"
  by (simp add: keeps_def)

lemma keeps_trace_mem: "keeps m \<Longrightarrow> ev \<in> set (trace s) \<Longrightarrow> ev \<in> set (trace (snd (m s)))"
  unfolding keeps_def by (metis Un_iff set_append)

subsection \<open>The file mask.png\<close>

text \<open>What remains of \<open>forward\<close> after \<open>mask.png\<close> is written.\<close>

lemma keeps_after_save:
  "keeps (bind_r (get_box_from_mask E km) (\<lambda>key_box.
          bind_r (forward_tracker E ps key_box) (\<lambda>all_box.
          bind_r (propagate E dks (zip (drop 1 ps) (drop 1 all_box)) km [kf] [km]) (\<lambda>acc.
          ret (fst acc, snd acc, all_box)))))"
  by (intro keeps_bind keeps_propagate keeps_ret)
     (simp_all add: get_box_from_mask_def forward_tracker_def keeps_call)

text \<open>
  C10. Whenever the key-frame stage of \<open>forward\<close> goes through (there is a first path, its
  image loads, the segmentor takes the image and returns candidates, a candidate is
  chosen, the optional dilation and the write succeed), the chosen, binarised and
  optionally dilated key-frame mask is in the file \<open>mask.png\<close> when \<open>forward\<close> ends, however
  it ends, and the call that wrote it is on record. No argument of \<open>forward\<close> switches
  this off: the theorem holds for every value of the manual index and of the kernel size.
\<close>

theorem forward_writes_mask_png:
  assumes gi: "getitem ps 0 = Inr p0"
      and ld: "load_img_to_array E p0 = Inr kf"
      and si: "set_image E kf = Inr ()"
      and ks: "key_select E kf coords labels (arg_or None midx) = Inr sel0"
      and dl: "dilate_opt E (arg_or (Some 15) dks) sel0 = Inr km"
      and sv: "save_array_to_img E km ''mask.png'' = Inr ()"
  shows "files (snd (forward E ps 0 coords labels midx dks s)) ''mask.png'' = Some km
       \<and> Save km ''mask.png'' \<in> set (trace (snd (forward E ps 0 coords labels midx dks s)))"
proof -
  let ?dks = "arg_or (Some 15) dks"
  let ?pr = "\<lparr>point_coords = Some coords, point_labels = Some labels, box = None\<rparr>"
  from ks obtain res cand where pr: "predict E kf ?pr = Inr res"
    and cd: "(case arg_or None midx of Some i \<Rightarrow> getitem (fst res) i
              | None \<Rightarrow> mask_selection int32_of_bool (fst res) (snd res) None False) = Inr cand"
    and s0: "sel0 = binarize cand"
    by (auto simp: key_select_def bind_e_def split: sum.splits)
  define s5 where "s5 = snd ((case ?dks of None \<Rightarrow> ret (binarize cand)
                                | Some k \<Rightarrow> dilate E (binarize cand) k)
       (s\<lparr>sam_image := None, trace := trace s @ [Load p0, SetImage kf, Predict ?pr, ResetImage]\<rparr>))"
  define s6 where "s6 = s5\<lparr>files := (files s5)(''mask.png'' \<mapsto> km), trace := trace s5 @ [Save km ''mask.png'']\<rparr>"
  define rest where "rest = bind_r (get_box_from_mask E km) (\<lambda>key_box.
          bind_r (forward_tracker E ps key_box) (\<lambda>all_box.
          bind_r (propagate E ?dks (zip (drop 1 ps) (drop 1 all_box)) km [kf] [km]) (\<lambda>acc.
          ret (fst acc, snd acc, all_box))))"
  have dstep: "(case ?dks of None \<Rightarrow> ret (binarize cand) | Some k \<Rightarrow> dilate E (binarize cand) k)
                 (s\<lparr>sam_image := None, trace := trace s @ [Load p0, SetImage kf, Predict ?pr, ResetImage]\<rparr>)
               = (Inr km, s5)"
    using dl s0 by (simp add: dilate_step_run s5_def)
  have run: "forward E ps 0 coords labels midx dks s = rest s6"
    unfolding forward_def Let_def rest_def
    by (simp add: bind_r_def py_assert_def ret_def lift_def gi load_def call_def ld
        forward_segmentor_run si pr cd dstep save_def sv s6_def)
  have "keeps rest" unfolding rest_def by (rule keeps_after_save)
  then have "files (snd (rest s6)) = files s6"
    and "Save km ''mask.png'' \<in> set (trace (snd (rest s6)))"
    by (simp_all add: keeps_files keeps_trace_mem s6_def)
  then show ?thesis
    unfolding run by (simp add: s6_def)
qed

theorem forward_writes_mask_png_witness:
  "getitem demo_paths 0 = Inr ''f0.jpg''
   \<and> load_img_to_array demo_env ''f0.jpg'' = Inr frame0
   \<and> set_image demo_env frame0 = Inr ()
   \<and> key_select demo_env frame0 [[1, 1]] [1] (arg_or None Omitted) = Inr key_mask1
   \<and> dilate_opt demo_env (arg_or (Some 15) Omitted) key_mask1 = Inr [[255, 255], [255, 255]]
   \<and> save_array_to_img demo_env [[255, 255], [255, 255]] ''mask.png'' = Inr ()
   \<and> files (snd (forward demo_env demo_paths 0 [[1, 1]] [1] Omitted Omitted state0)) ''mask.png''
       = Some [[255, 255], [255, 255]]
   \<and> Save [[255, 255], [255, 255]] ''mask.png''
       \<in> set (trace (snd (forward demo_env demo_paths 0 [[1, 1]] [1] Omitted Omitted state0)))"
proof -
  have gi: "getitem demo_paths 0 = Inr ''f0.jpg''"
    by (simp add: getitem_def demo_paths_def)
  have ld: "load_img_to_array demo_env ''f0.jpg'' = Inr frame0"
    by (simp add: demo_env_def demo_load_def)
  have si: "set_image demo_env frame0 = Inr ()"
    by (simp add: demo_env_def)
  have ks: "key_select demo_env frame0 [[1, 1]] [1] (arg_or None Omitted) = Inr key_mask1"
    by (simp add: key_select_def arg_or_def demo_env_def demo_predict_def key_cands_def
        key_scores_def key_mask1_def binarize_def eval_sel)
  have dl: "dilate_opt demo_env (arg_or (Some 15) Omitted) key_mask1 = Inr [[255, 255], [255, 255]]"
    by (simp add: dilate_opt_def arg_or_def demo_env_def key_mask1_def eval_dilate shape2_def
        upt_rec [of _ "numeral _"])
  have sv: "save_array_to_img demo_env [[255, 255], [255, 255]] ''mask.png'' = Inr ()"
    by (simp add: demo_env_def)
  note concl = forward_writes_mask_png [OF gi ld si ks dl sv, of state0]
  show ?thesis
    by (intro conjI) (rule gi ld si ks dl sv | use concl in blast)+
qed

subsection \<open>The box handed to the segmentor\<close>





subsection \<open>When dilation runs\<close>

lemma dilate_opt_None: "dilate_opt E None = Inr"
  by (rule ext) (simp add: dilate_opt_def)

lemma dilate_opt_Some: "dilate_opt E (Some k) = (\<lambda>m. dilate_mask E m k)"
  by (rule ext) (simp add: dilate_opt_def)

text \<open>
  C4, as the code has it. In a run of \<open>forward\<close> that returns, let \<open>sels\<close> be the selected,
  binarised masks, one per frame. If the kernel size is given as \<open>None\<close>, the masks
  returned are \<open>sels\<close>, undilated. If it is given as an integer \<open>k\<close>, of any sign, every
  mask returned is what \<open>dilate_mask\<close> makes of the selected mask with size \<open>k\<close>:
  \<open>forward\<close> tests the size against \<open>None\<close> only. If it is not supplied, the same holds
  with \<open>k = 15\<close>.
\<close>

theorem forward_dilation_gate:
  assumes run: "forward E ps kidx coords labels midx dks s = (Inr (frames, masks, boxes), s')"
  shows "\<exists>sels. length sels = length masks
      \<and> key_select E (frames ! 0) coords labels (arg_or None midx) = Inr (sels ! 0)
      \<and> (\<forall>i. 0 < i \<and> i < length masks \<longrightarrow>
            frame_select E (frames ! i) (boxes ! i) (masks ! (i - 1)) = Inr (sels ! i))
      \<and> (case dks of
           Given None \<Rightarrow> masks = sels
         | Given (Some k) \<Rightarrow> map (\<lambda>m. dilate_mask E m k) sels = map Inr masks
         | Omitted \<Rightarrow> map (\<lambda>m. dilate_mask E m 15) sels = map Inr masks)"
proof -
  let ?zs = "zip (drop 1 ps) (drop 1 boxes)"
  let ?dks = "arg_or (Some 15) dks"
  from forward_Inr [OF run] obtain kf sel0 km fs ms sels where
    ks: "key_select E kf coords labels (arg_or None midx) = Inr sel0"
    and d0: "dilate_opt E ?dks sel0 = Inr km"
    and fr: "frames = kf # fs" and mk: "masks = km # ms"
    and lf: "length fs = length ?zs" and lm: "length ms = length ?zs"
    and ls: "length sels = length ?zs"
    and step: "\<forall>i<length ?zs. load_img_to_array E (fst (?zs ! i)) = Inr (fs ! i)
             \<and> frame_select E (fs ! i) (snd (?zs ! i)) ((km # ms) ! i) = Inr (sels ! i)
             \<and> dilate_opt E ?dks (sels ! i) = Inr (ms ! i)"
    by blast
  have len: "length (sel0 # sels) = length masks" using mk lm ls by simp
  have key: "key_select E (frames ! 0) coords labels (arg_or None midx) = Inr ((sel0 # sels) ! 0)"
    using ks fr by simp
  have sel: "frame_select E (frames ! i) (boxes ! i) (masks ! (i - 1)) = Inr ((sel0 # sels) ! i)"
    if "0 < i \<and> i < length masks" for i
  proof -
    from that have i: "0 < i" "i < length masks" by simp_all
    obtain j where j: "i = Suc j" using i(1) by (cases i) auto
    have jl: "j < length ?zs" using i(2) mk lm j by simp
    then have jp: "j < length (drop 1 ps)" and jb: "j < length (drop 1 boxes)" by simp_all
    have z: "snd (?zs ! j) = boxes ! i" using jp jb j by (simp add: nth_zip)
    from step [rule_format, OF jl]
    have "frame_select E (fs ! j) (snd (?zs ! j)) ((km # ms) ! j) = Inr (sels ! j)" by blast
    then show ?thesis using z j fr mk by simp
  qed
  have dil: "map (dilate_opt E ?dks) (sel0 # sels) = map Inr masks"
  proof (rule nth_equalityI)
    show "length (map (dilate_opt E ?dks) (sel0 # sels)) = length (map Inr masks)"
      using len by simp
    fix i assume "i < length (map (dilate_opt E ?dks) (sel0 # sels))"
    then have i: "i < length (sel0 # sels)" by simp
    show "map (dilate_opt E ?dks) (sel0 # sels) ! i = map Inr masks ! i"
    proof (cases i)
      case 0
      then show ?thesis using d0 mk by simp
    next
      case (Suc j)
      then have jl: "j < length ?zs" using i ls by simp
      from step [rule_format, OF jl] have "dilate_opt E ?dks (sels ! j) = Inr (ms ! j)" by blast
      then show ?thesis using Suc jl mk lm ls by simp
    qed
  qed
  have gate: "(case dks of
           Given None \<Rightarrow> masks = sel0 # sels
         | Given (Some k) \<Rightarrow> map (\<lambda>m. dilate_mask E m k) (sel0 # sels) = map Inr masks
         | Omitted \<Rightarrow> map (\<lambda>m. dilate_mask E m 15) (sel0 # sels) = map Inr masks)"
  proof (cases dks)
    case Omitted
    then show ?thesis using dil by (simp add: arg_or_def dilate_opt_Some)
  next
    case (Given d)
    show ?thesis
    proof (cases d)
      case None
      then have "map Inr (sel0 # sels) = (map Inr masks :: (error + mask) list)"
        using dil Given by (simp add: arg_or_def dilate_opt_None)
      then have "sel0 # sels = masks"
        by (metis inj_Inr inj_map_eq_map)
      then show ?thesis using Given None by simp
    next
      case (Some k)
      then show ?thesis using dil Given by (simp add: arg_or_def dilate_opt_Some)
    qed
  qed
  show ?thesis
    using len key sel gate by (intro exI [of _ "sel0 # sels"]) blast
qed

theorem forward_dilation_gate_witness:
  "forward demo_env demo_paths 0 [[1, 1]] [1] (Given (Some 1)) (Given (Some 0)) state0
     = (Inr (demo_frames, grown_masks, demo_boxes), snd (demo_run (Given (Some 0))))
   \<and> (\<exists>sels. length sels = length grown_masks
         \<and> key_select demo_env (demo_frames ! 0) [[1, 1]] [1] (arg_or None (Given (Some 1)))
             = Inr (sels ! 0)
         \<and> (\<forall>i. 0 < i \<and> i < length grown_masks \<longrightarrow>
               frame_select demo_env (demo_frames ! i) (demo_boxes ! i) (grown_masks ! (i - 1))
                 = Inr (sels ! i))
         \<and> map (\<lambda>m. dilate_mask demo_env m 0) sels = map Inr grown_masks)
   \<and> forward demo_env demo_paths 0 [[1, 1]] [1] (Given (Some 1)) (Given None) state0
     = (Inr (demo_frames, plain_masks, demo_boxes), snd (demo_run (Given None)))
   \<and> (\<exists>sels. length sels = length plain_masks
         \<and> key_select demo_env (demo_frames ! 0) [[1, 1]] [1] (arg_or None (Given (Some 1)))
             = Inr (sels ! 0)
         \<and> (\<forall>i. 0 < i \<and> i < length plain_masks \<longrightarrow>
               frame_select demo_env (demo_frames ! i) (demo_boxes ! i) (plain_masks ! (i - 1))
                 = Inr (sels ! i))
         \<and> plain_masks = sels)"
  using forward_dilation_gate [OF demo_run_0_full] demo_run_0_full
    forward_dilation_gate [OF demo_run_None_full] demo_run_None_full
  by simp

text \<open>
  The claim that a size that is not positive switches dilation off fails at size 0: the
  run calls the dilation helper with the key-frame mask and size 0, and with the stand-in
  helper (for which an empty element means the 3 x 3 default) the masks returned are not
  the undilated ones. At size -1 the helper raises and the run returns no masks at all.
\<close>

theorem forward_dilates_at_size_zero:
  "fst (forward demo_env demo_paths 0 [[1, 1]] [1] (Given (Some 1)) (Given (Some 0)) state0)
     = Inr (demo_frames, grown_masks, demo_boxes)
   \<and> fst (forward demo_env demo_paths 0 [[1, 1]] [1] (Given (Some 1)) (Given None) state0)
     = Inr (demo_frames, plain_masks, demo_boxes)
   \<and> grown_masks \<noteq> plain_masks
   \<and> Dilate key_mask1 0
       \<in> set (trace (snd (forward demo_env demo_paths 0 [[1, 1]] [1] (Given (Some 1))
                             (Given (Some 0)) state0)))
   \<and> fst (forward demo_env demo_paths 0 [[1, 1]] [1] (Given (Some 1)) (Given (Some (- 1))) state0)
     = Inl ValueError"
proof -
  have a: "fst (forward demo_env demo_paths 0 [[1, 1]] [1] (Given (Some 1)) (Given (Some 0)) state0)
     = Inr (demo_frames, grown_masks, demo_boxes)"
    using demo_run_0 by (simp add: demo_run_def)
  have b: "fst (forward demo_env demo_paths 0 [[1, 1]] [1] (Given (Some 1)) (Given None) state0)
     = Inr (demo_frames, plain_masks, demo_boxes)"
    using demo_run_None by (simp add: demo_run_def)
  have c: "grown_masks \<noteq> plain_masks"
    by (simp add: grown_masks_def plain_masks_def)
  have d: "Dilate key_mask1 0
       \<in> set (trace (snd (forward demo_env demo_paths 0 [[1, 1]] [1] (Given (Some 1))
                             (Given (Some 0)) state0)))"
    by (simp add: eval_run eval_demo eval_sel eval_dilate key_mask1_def upt_rec [of _ "numeral _"])
  have e: "fst (forward demo_env demo_paths 0 [[1, 1]] [1] (Given (Some 1)) (Given (Some (- 1))) state0)
     = Inl ValueError"
    by (simp add: eval_run eval_demo eval_sel eval_dilate)
  show ?thesis
    by (intro conjI) (rule a b c d e)+
qed

end
